theory Spec2Isabelle
  imports Complex_Main "HOL-Library.Word"
begin

text \<open>
  The food label checker holds its core twice, word for word: in the stdio server
  (\<open>src/index.js\<close>) and in the HTTP server.  The definitions below follow
  \<open>getEditDistance\<close>, \<open>calculateSimilarity\<close>, \<open>parseIngredients\<close>, \<open>verifyIngredients\<close>,
  \<open>searchFoodInDB\<close> and the handler of the tool \<open>verify_food_label\<close> as both files have
  them.
\<close>

section \<open>JavaScript values\<close>

text \<open>
  A JavaScript string is a sequence of 16-bit code units: \<open>length\<close>, \<open>charAt\<close>,
  \<open>split\<close>, \<open>trim\<close> and \<open>!==\<close> all work on code units.  A value that may be
  \<open>null\<close> or \<open>undefined\<close> is an \<open>option\<close>, with \<open>None\<close> for the absent value.
\<close>

type_synonym jsstring = "16 word list"

definition ascii :: "string \<Rightarrow> jsstring" where
  "ascii s = map of_char s"

text \<open>\<open>str.charAt(i)\<close>: the one-unit string at index \<open>i\<close>, the empty string out of range.\<close>

definition charAt :: "jsstring \<Rightarrow> nat \<Rightarrow> jsstring" where
  "charAt s i = (if i < length s then [s ! i] else [])"

text \<open>
  The array \<open>costs\<close> of \<open>getEditDistance\<close> holds numbers.  An entry is \<open>Some n\<close> for
  the number \<open>n\<close> and \<open>None\<close> for a value that is not a number (a hole of the array,
  \<open>undefined\<close>, \<open>NaN\<close>).  Reading past the end gives \<open>undefined\<close>; writing past the
  end extends the array, leaving holes.
\<close>

definition arr_get :: "'a option list \<Rightarrow> nat \<Rightarrow> 'a option" where
  "arr_get a j = (if j < length a then a ! j else None)"

definition arr_set :: "'a option list \<Rightarrow> nat \<Rightarrow> 'a option \<Rightarrow> 'a option list" where
  "arr_set a j v =
     (if j < length a then a[j := v] else a @ replicate (j - length a) None @ [v])"

text \<open>\<open>Math.min\<close> and \<open>+ 1\<close> on such values: not-a-number propagates.\<close>

fun math_min :: "nat option \<Rightarrow> nat option \<Rightarrow> nat option" where
  "math_min (Some a) (Some b) = Some (min a b)"
| "math_min _ _ = None"

definition plus_one :: "nat option \<Rightarrow> nat option" where
  "plus_one v = map_option Suc v"

section \<open>Edit-distance engine\<close>

subsection \<open>The classic Levenshtein distance\<close>

text \<open>
  The reference notion the similarity is specified against: the least number of
  single-character insertions, deletions and substitutions, each of cost one, by its
  textbook recurrence.
\<close>

fun levenshtein :: "'a list \<Rightarrow> 'a list \<Rightarrow> nat" where
  "levenshtein [] ys = length ys"
| "levenshtein (x # xs) [] = Suc (length xs)"
| "levenshtein (x # xs) (y # ys) =
     min (min (Suc (levenshtein xs (y # ys))) (Suc (levenshtein (x # xs) ys)))
         (levenshtein xs ys + (if x = y then 0 else 1))"

text \<open>
  Edit scripts, read left to right: \<open>edit_script xs ys n\<close> holds when \<open>ys\<close> is obtained from
  \<open>xs\<close> by a script that deletes a character of \<open>xs\<close> (cost 1), inserts a character of
  \<open>ys\<close> (cost 1), or takes a character of \<open>xs\<close> to one of \<open>ys\<close> (cost 0 when they are
  equal, 1 for a substitution), of total cost \<open>n\<close>.
\<close>

inductive edit_script :: "'a list \<Rightarrow> 'a list \<Rightarrow> nat \<Rightarrow> bool" where
  done_script: "edit_script [] [] 0"
| delete: "edit_script xs ys n \<Longrightarrow> edit_script (x # xs) ys (Suc n)"
| insert: "edit_script xs ys n \<Longrightarrow> edit_script xs (y # ys) (Suc n)"
| keep_or_subst:
    "edit_script xs ys n \<Longrightarrow> edit_script (x # xs) (y # ys) (n + (if x = y then 0 else 1))"

subsection \<open>\<open>getEditDistance\<close>\<close>

text \<open>
  The body of the inner loop, for row \<open>i\<close> and column \<open>j\<close>, on the state
  \<open>(costs, lastValue)\<close>.
\<close>

definition inner_body ::
  "jsstring \<Rightarrow> jsstring \<Rightarrow> nat \<Rightarrow> nat \<Rightarrow> nat option list \<times> nat option
     \<Rightarrow> nat option list \<times> nat option" where
  "inner_body str1 str2 i j st =
     (case st of (costs, lastValue) \<Rightarrow>
        if i = 0 then (arr_set costs j (Some j), lastValue)
        else if j > 0 then
          (let newValue = arr_get costs (j - 1);
               newValue' =
                 (if charAt str1 (i - 1) \<noteq> charAt str2 (j - 1)
                  then plus_one (math_min (math_min newValue lastValue) (arr_get costs j))
                  else newValue)
           in (arr_set costs (j - 1) lastValue, newValue'))
        else (costs, lastValue))"

text \<open>The body of the outer loop, for row \<open>i\<close>, on the array \<open>costs\<close>.\<close>

definition outer_body :: "jsstring \<Rightarrow> jsstring \<Rightarrow> nat \<Rightarrow> nat option list \<Rightarrow> nat option list" where
  "outer_body str1 str2 i costs =
     (case fold (inner_body str1 str2 i) [0..<Suc (length str2)] (costs, Some i) of
        (costs', lastValue) \<Rightarrow>
          if i > 0 then arr_set costs' (length str2) lastValue else costs')"

definition getEditDistance :: "jsstring \<Rightarrow> jsstring \<Rightarrow> nat option" where
  "getEditDistance str1 str2 =
     arr_get (fold (outer_body str1 str2) [0..<Suc (length str1)] []) (length str2)"

subsection \<open>\<open>calculateSimilarity\<close>\<close>

text \<open>
  The arguments may be absent (\<open>None\<close>); \<open>!str\<close> holds for an absent and for an empty
  string.  The result is a JavaScript number, here an exact rational, \<open>None\<close> standing
  for \<open>NaN\<close>.  For strings below \<open>2^26\<close> code units the quotients of lengths that occur
  are told apart by their double-precision values exactly as by their rational values,
  also against the literal \<open>0.7\<close>, and \<open>Math.round\<close> of a hundred times such a quotient
  above \<open>0.7\<close> is the rational rounding, halves upwards.
\<close>

definition calculateSimilarity :: "jsstring option \<Rightarrow> jsstring option \<Rightarrow> rat option" where
  "calculateSimilarity str1 str2 =
     (case (str1, str2) of
        (Some s1, Some s2) \<Rightarrow>
          if s1 = [] \<or> s2 = [] then Some 0
          else
            (let longer = (if length s1 > length s2 then s1 else s2);
                 shorter = (if length s1 > length s2 then s2 else s1)
             in if length longer = 0 then Some 1
                else
                  (case getEditDistance longer shorter of
                     Some editDistance \<Rightarrow>
                       Some ((of_nat (length longer) - of_nat editDistance) / of_nat (length longer))
                   | None \<Rightarrow> None))
      | _ \<Rightarrow> Some 0)"

section \<open>Ingredient tokenizer\<close>

text \<open>
  \<open>String.prototype.split\<close> with the separator \<open>/[,;\/]/\<close>: the text is cut at every
  code unit that is a comma, a semicolon or a slash; the pieces (empty ones too) come in
  their order, one more than there are separators.
\<close>

definition is_delim :: "16 word \<Rightarrow> bool" where
  "is_delim c = (c = 0x2C \<or> c = 0x3B \<or> c = 0x2F)"

fun split_from :: "jsstring \<Rightarrow> jsstring \<Rightarrow> jsstring list" where
  "split_from piece [] = [piece]"
| "split_from piece (c # cs) =
     (if is_delim c then piece # split_from [] cs else split_from (piece @ [c]) cs)"

definition split :: "jsstring \<Rightarrow> jsstring list" where
  "split s = split_from [] s"

text \<open>
  \<open>String.prototype.trim\<close> removes the white space and the line terminators of
  ECMAScript from both ends.
\<close>

definition is_space :: "16 word \<Rightarrow> bool" where
  "is_space c =
     (c = 0x0009 \<or> c = 0x000A \<or> c = 0x000B \<or> c = 0x000C \<or> c = 0x000D \<or> c = 0x0020
      \<or> c = 0x00A0 \<or> c = 0x1680 \<or> (0x2000 \<le> c \<and> c \<le> 0x200A) \<or> c = 0x2028
      \<or> c = 0x2029 \<or> c = 0x202F \<or> c = 0x205F \<or> c = 0x3000 \<or> c = 0xFEFF)"

definition trim :: "jsstring \<Rightarrow> jsstring" where
  "trim s = rev (dropWhile is_space (rev (dropWhile is_space s)))"

definition parseIngredients :: "jsstring option \<Rightarrow> jsstring list" where
  "parseIngredients ingredientString =
     (case ingredientString of
        None \<Rightarrow> []
      | Some s \<Rightarrow>
          if s = [] then []
          else filter (\<lambda>item. length item > 0) (map trim (split s)))"

section \<open>Ingredient reconciler\<close>

text \<open>
  A correction as \<open>verifyIngredients\<close> builds it.  \<open>bestMatch\<close> starts as \<open>null\<close>, so the
  matched token is an optional string, in \<open>verified\<close> as in \<open>corrected\<close>.
\<close>

record correction =
  original :: jsstring
  corrected :: "jsstring option"
  confidence :: int

record reconciliation =
  verified :: "jsstring option list"
  corrections :: "correction list"
  dbIngredients :: "jsstring list"

text \<open>
  The body of the inner loop on the state \<open>(bestMatch, bestSimilarity)\<close>.  The
  parameter \<open>toLowerCase\<close> stands for \<open>String.prototype.toLowerCase\<close>.  A comparison
  with \<open>NaN\<close> is false.
\<close>

definition match_body ::
  "(jsstring \<Rightarrow> jsstring) \<Rightarrow> jsstring \<Rightarrow> jsstring \<Rightarrow> jsstring option \<times> rat
     \<Rightarrow> jsstring option \<times> rat" where
  "match_body toLowerCase ocrIngredient dbIngredient st =
     (case st of (bestMatch, bestSimilarity) \<Rightarrow>
        (case calculateSimilarity (Some (toLowerCase ocrIngredient))
                (Some (toLowerCase dbIngredient)) of
           Some similarity \<Rightarrow>
             if similarity > bestSimilarity then (Some dbIngredient, similarity)
             else (bestMatch, bestSimilarity)
         | None \<Rightarrow> (bestMatch, bestSimilarity)))"

text \<open>The body of the outer loop on the state \<open>(verified, corrections)\<close>; the local
  variables carry a prime, their names being the fields of the result.\<close>

definition verify_body ::
  "(jsstring \<Rightarrow> jsstring) \<Rightarrow> jsstring list \<Rightarrow> jsstring
     \<Rightarrow> jsstring option list \<times> correction list
     \<Rightarrow> jsstring option list \<times> correction list" where
  "verify_body toLowerCase dbIngredients' ocrIngredient st =
     (case st of (verified', corrections') \<Rightarrow>
        (case fold (match_body toLowerCase ocrIngredient) dbIngredients' (None, 0) of
           (bestMatch, bestSimilarity) \<Rightarrow>
             if bestSimilarity > 7 / 10 then
               (verified' @ [bestMatch],
                if Some ocrIngredient \<noteq> bestMatch
                then corrections' @
                  [\<lparr>original = ocrIngredient, corrected = bestMatch,
                    confidence = round (bestSimilarity * 100)\<rparr>]
                else corrections')
             else (verified' @ [Some ocrIngredient], corrections')))"

definition verifyIngredients ::
  "(jsstring \<Rightarrow> jsstring) \<Rightarrow> jsstring list \<Rightarrow> jsstring option \<Rightarrow> reconciliation" where
  "verifyIngredients toLowerCase ocrIngredients dbIngredientsString =
     (let dbIngredients' = parseIngredients dbIngredientsString
      in case fold (verify_body toLowerCase dbIngredients') ocrIngredients ([], []) of
           (verified', corrections') \<Rightarrow>
             \<lparr>verified = verified', corrections = corrections',
              dbIngredients = dbIngredients'\<rparr>)"

text \<open>
  A lowering function for closed examples: the letters \<open>A\<close> to \<open>Z\<close> go to \<open>a\<close> to \<open>z\<close>,
  every other code unit stays.  On Basic Latin text and on scripts without case, such
  as Hangul, it is what \<open>toLowerCase\<close> computes.
\<close>

definition lower_unit :: "16 word \<Rightarrow> 16 word" where
  "lower_unit c = (if 0x41 \<le> c \<and> c \<le> 0x5A then c + 0x20 else c)"

definition toLowerCase_basic :: "jsstring \<Rightarrow> jsstring" where
  "toLowerCase_basic s = map lower_unit s"

section \<open>Record lookup and the verification handler\<close>

subsection \<open>JSON values\<close>

text \<open>
  What the record store answers is JSON.  A JavaScript value is a \<open>json option\<close>, \<open>None\<close>
  being \<open>undefined\<close>.  An object is the list of its members, each key once.
\<close>

datatype json =
    JNull
  | JBool bool
  | JNum rat
  | JStr jsstring
  | JArr "json list"
  | JObj "(jsstring \<times> json) list"

text \<open>Truthiness, as \<open>!x\<close>, \<open>x && y\<close> and \<open>x || y\<close> test it.\<close>

fun truthy :: "json option \<Rightarrow> bool" where
  "truthy None = False"
| "truthy (Some JNull) = False"
| "truthy (Some (JBool b)) = b"
| "truthy (Some (JNum r)) = (r \<noteq> 0)"
| "truthy (Some (JStr s)) = (s \<noteq> [])"
| "truthy (Some (JArr xs)) = True"
| "truthy (Some (JObj members)) = True"

definition js_or :: "json option \<Rightarrow> json option \<Rightarrow> json option" where
  "js_or a b = (if truthy a then a else b)"

text \<open>
  \<open>x.name\<close> for a member name (\<open>body\<close>, \<open>items\<close>, \<open>rawmtrl_nm\<close> and the like): the
  member of an object, \<open>undefined\<close> on a number, a boolean, a string or an array.  The
  source reads a member only of a value it has tested to be truthy.
\<close>

fun js_member :: "json option \<Rightarrow> jsstring \<Rightarrow> json option" where
  "js_member (Some (JObj members)) name = map_of members name"
| "js_member v name = None"

text \<open>
  \<open>items.length\<close>: an array and a string have their length; on an object \<open>length\<close> is
  a member like any other; on other values it is \<open>undefined\<close>.
\<close>

fun js_length :: "json option \<Rightarrow> json option" where
  "js_length (Some (JArr xs)) = Some (JNum (of_nat (length xs)))"
| "js_length (Some (JStr s)) = Some (JNum (of_nat (length s)))"
| "js_length (Some (JObj members)) = map_of members (ascii ''length'')"
| "js_length v = None"

text \<open>
  \<open>x > 0\<close>: \<open>x\<close> is converted to a number; \<open>undefined\<close> gives \<open>NaN\<close> and the comparison
  is false, \<open>null\<close> gives 0, \<open>true\<close> gives 1.  The conversion of a string, an array or
  an object is the parameter \<open>toNumber\<close> (\<open>None\<close> for \<open>NaN\<close>).
\<close>

fun greater_zero :: "(json \<Rightarrow> rat option) \<Rightarrow> json option \<Rightarrow> bool" where
  "greater_zero toNumber None = False"
| "greater_zero toNumber (Some JNull) = False"
| "greater_zero toNumber (Some (JBool b)) = b"
| "greater_zero toNumber (Some (JNum n)) = (n > 0)"
| "greater_zero toNumber (Some v) = (case toNumber v of None \<Rightarrow> False | Some n \<Rightarrow> n > 0)"

text \<open>\<open>items[0]\<close>.\<close>

fun first_item :: "json option \<Rightarrow> json option" where
  "first_item (Some (JArr xs)) = (case xs of [] \<Rightarrow> None | x # rest \<Rightarrow> Some x)"
| "first_item (Some (JStr s)) = (case s of [] \<Rightarrow> None | c # rest \<Rightarrow> Some (JStr [c]))"
| "first_item (Some (JObj members)) = map_of members (ascii ''0'')"
| "first_item v = None"

subsection \<open>\<open>searchFoodInDB\<close>\<close>

text \<open>
  The request either fails (no answer, a timeout, a status that is not a success: the
  promise of \<open>axios.get\<close> rejects) or is fulfilled with \<open>response.data\<close>.  The parameter
  \<open>axios_get\<close> gives the outcome for a product name.  The whole body is inside \<open>try\<close>,
  and the handler of \<open>catch\<close> returns \<open>null\<close>.
\<close>

datatype http_outcome = Rejected | Fulfilled "json option"

definition searchFoodInDB ::
  "(json \<Rightarrow> rat option) \<Rightarrow> (jsstring \<Rightarrow> http_outcome) \<Rightarrow> jsstring \<Rightarrow> json option" where
  "searchFoodInDB toNumber axios_get productName' =
     (case axios_get productName' of
        Rejected \<Rightarrow> Some JNull
      | Fulfilled data \<Rightarrow>
          if truthy data \<and> truthy (js_member data (ascii ''body''))
             \<and> truthy (js_member (js_member data (ascii ''body'')) (ascii ''items''))
          then
            (let items = js_member (js_member data (ascii ''body'')) (ascii ''items'')
             in if greater_zero toNumber (js_length items) then first_item items else Some JNull)
          else Some JNull)"

subsection \<open>The handler of \<open>verify_food_label\<close>\<close>

text \<open>The arguments of the tool, as its input schema types them.\<close>

record tool_arguments =
  productName :: jsstring
  manufacturer :: "jsstring option"
  ingredients :: "jsstring list"

text \<open>
  The objects the handler serialises with \<open>JSON.stringify\<close>.  A field whose name is
  already the field of another record here carries the name of its object in front.
\<close>

record not_found_payload =
  not_found_verified :: bool
  not_found_message_field :: jsstring
  originalData :: tool_arguments
  suggestion :: jsstring

record product_info =
  info_name :: "json option"
  info_manufacturer :: "json option"
  info_reportNumber :: "json option"

record ingredients_payload =
  ingredients_original :: "jsstring list"
  ingredients_verified :: "jsstring option list"
  fromDB :: "jsstring list"
  inCorrectOrder :: bool

record verification_payload =
  result_verified :: bool
  productInfo :: product_info
  result_ingredients :: ingredients_payload
  result_corrections :: "correction list"
  result_confidence :: nat
  message :: jsstring

text \<open>
  What the handler returns: the payload for a product that was not found, the payload
  of a verification, or the error payload (with \<open>isError\<close>) that its \<open>catch\<close> builds.
\<close>

datatype tool_result =
    NotFound not_found_payload
  | Verification verification_payload
  | UnexpectedFault

text \<open>The fixed texts of the payloads, as code units.\<close>

definition not_found_message :: jsstring where
  "not_found_message =
     [0x0044, 0x0042, 0xC5D0, 0xC11C, 0x0020, 0xC81C, 0xD488, 0xC744, 0x0020, 0xCC3E,
      0xC744, 0x0020, 0xC218, 0x0020, 0xC5C6, 0xC2B5, 0xB2C8, 0xB2E4, 0x002E, 0x0020,
      0x004F, 0x0043, 0x0052, 0x0020, 0xACB0, 0xACFC, 0xB97C, 0x0020, 0xADF8, 0xB300,
      0xB85C, 0x0020, 0xC0AC, 0xC6A9, 0xD569, 0xB2C8, 0xB2E4, 0x002E]"

definition suggestion_text :: jsstring where
  "suggestion_text =
     [0x0044, 0x0042, 0xC5D0, 0x0020, 0xC81C, 0xD488, 0xC774, 0x0020, 0xC5C6, 0xC744,
      0x0020, 0xC218, 0x0020, 0xC788, 0xC2B5, 0xB2C8, 0xB2E4, 0x002E, 0x0020, 0xC81C,
      0xD488, 0xBA85, 0xC744, 0x0020, 0xB2E4, 0xC2DC, 0x0020, 0xD655, 0xC778, 0xD574,
      0xC8FC, 0xC138, 0xC694, 0x002E]"

definition all_correct_message :: jsstring where
  "all_correct_message =
     [0xBAA8, 0xB4E0, 0x0020, 0xC815, 0xBCF4, 0xAC00, 0x0020, 0xC815, 0xD655, 0xD569,
      0xB2C8, 0xB2E4, 0x0021]"

definition corrected_suffix :: jsstring where
  "corrected_suffix =
     [0xAC1C, 0xC758, 0x0020, 0xD56D, 0xBAA9, 0xC774, 0x0020, 0xC218, 0xC815, 0xB418,
      0xC5C8, 0xC2B5, 0xB2C8, 0xB2E4, 0x002E]"

text \<open>A count in a template literal: its decimal digits.\<close>

fun decimal :: "nat \<Rightarrow> jsstring" where
  "decimal n =
     (if n < 10 then [of_nat (48 + n)] else decimal (n div 10) @ [of_nat (48 + n mod 10)])"

declare decimal.simps [simp del]

text \<open>
  The raw ingredient text is \<open>dbProduct.rawmtrl_nm || dbProduct.RAWMTRL_NM || ''\<close>.  When
  it is not a string, \<open>parseIngredients\<close> calls a \<open>split\<close> that is not there, and the
  \<open>TypeError\<close> ends in the \<open>catch\<close> of the handler.
\<close>

definition verify_food_label ::
  "(jsstring \<Rightarrow> jsstring) \<Rightarrow> (json \<Rightarrow> rat option) \<Rightarrow> (jsstring \<Rightarrow> http_outcome)
     \<Rightarrow> tool_arguments \<Rightarrow> tool_result" where
  "verify_food_label toLowerCase toNumber axios_get args =
     (let dbProduct = searchFoodInDB toNumber axios_get (productName args)
      in if \<not> truthy dbProduct then
           NotFound
             \<lparr>not_found_verified = False,
              not_found_message_field = not_found_message,
              originalData = args,
              suggestion = suggestion_text\<rparr>
         else
           (case js_or (js_or (js_member dbProduct (ascii ''rawmtrl_nm''))
                              (js_member dbProduct (ascii ''RAWMTRL_NM'')))
                       (Some (JStr [])) of
              Some (JStr raw) \<Rightarrow>
                (let r = verifyIngredients toLowerCase (ingredients args) (Some raw)
                 in Verification
                      \<lparr>result_verified = True,
                       productInfo =
                         \<lparr>info_name =
                            js_or (js_or (js_member dbProduct (ascii ''prdlst_nm''))
                                         (js_member dbProduct (ascii ''PRDLST_NM'')))
                                  (Some (JStr (productName args))),
                          info_manufacturer =
                            js_or (js_or (js_member dbProduct (ascii ''bssh_nm''))
                                         (js_member dbProduct (ascii ''BSSH_NM'')))
                                  (map_option JStr (manufacturer args)),
                          info_reportNumber =
                            js_or (js_member dbProduct (ascii ''prdlst_report_no''))
                                  (js_member dbProduct (ascii ''PRDLST_REPORT_NO''))\<rparr>,
                       result_ingredients =
                         \<lparr>ingredients_original = ingredients args,
                          ingredients_verified = verified r,
                          fromDB = dbIngredients r,
                          inCorrectOrder = True\<rparr>,
                       result_corrections = corrections r,
                       result_confidence = (if length (corrections r) = 0 then 100 else 85),
                       message =
                         (if length (corrections r) = 0 then all_correct_message
                          else decimal (length (corrections r)) @ corrected_suffix)\<rparr>)
            | other \<Rightarrow> UnexpectedFault))"

section \<open>Reference definitions\<close>

subsection \<open>The table behind \<open>getEditDistance\<close>\<close>

text \<open>
  Entry \<open>(i, j)\<close> of the Wagner-Fischer table is the distance between the first \<open>i\<close>
  characters of one string and the first \<open>j\<close> of the other; \<open>cost_row\<close> is row \<open>i\<close> as
  the array \<open>costs\<close> holds it once the outer loop has finished that row.
\<close>

definition prefix_distance :: "'a list \<Rightarrow> 'a list \<Rightarrow> nat \<Rightarrow> nat \<Rightarrow> nat" where
  "prefix_distance s1 s2 i j = levenshtein (take i s1) (take j s2)"

definition cost_row :: "jsstring \<Rightarrow> jsstring \<Rightarrow> nat \<Rightarrow> nat option list" where
  "cost_row s1 s2 i = map (\<lambda>j. Some (prefix_distance s1 s2 i j)) [0..<Suc (length s2)]"

subsection \<open>Similarity as specified\<close>

text \<open>
  Zero when either string is absent or empty; otherwise the length of the longer string
  minus the Levenshtein distance, over the length of the longer string.
\<close>

definition similarity :: "jsstring option \<Rightarrow> jsstring option \<Rightarrow> rat" where
  "similarity a b =
     (case (a, b) of
        (Some s, Some t) \<Rightarrow>
          if s = [] \<or> t = [] then 0
          else (of_nat (max (length s) (length t)) - of_nat (levenshtein s t))
                 / of_nat (max (length s) (length t))
      | _ \<Rightarrow> 0)"

subsection \<open>Reconciliation as specified\<close>

text \<open>
  The similarity of an OCR token and a DB token, both lower-cased; the greatest such
  similarity over the DB tokens (the running best starts at zero); the first DB token
  that reaches it; and what one OCR token contributes to \<open>verified\<close> and to
  \<open>corrections\<close>.
\<close>

definition token_similarity :: "(jsstring \<Rightarrow> jsstring) \<Rightarrow> jsstring \<Rightarrow> jsstring \<Rightarrow> rat" where
  "token_similarity toLowerCase ocrToken dbToken =
     similarity (Some (toLowerCase ocrToken)) (Some (toLowerCase dbToken))"

definition best_similarity :: "(jsstring \<Rightarrow> jsstring) \<Rightarrow> jsstring list \<Rightarrow> jsstring \<Rightarrow> rat" where
  "best_similarity toLowerCase dbTokens ocrToken =
     Max (set (0 # map (token_similarity toLowerCase ocrToken) dbTokens))"

definition best_token ::
  "(jsstring \<Rightarrow> jsstring) \<Rightarrow> jsstring list \<Rightarrow> jsstring \<Rightarrow> jsstring option" where
  "best_token toLowerCase dbTokens ocrToken =
     find (\<lambda>dbToken. token_similarity toLowerCase ocrToken dbToken
                        = best_similarity toLowerCase dbTokens ocrToken) dbTokens"

definition verified_token ::
  "(jsstring \<Rightarrow> jsstring) \<Rightarrow> jsstring list \<Rightarrow> jsstring \<Rightarrow> jsstring option" where
  "verified_token toLowerCase dbTokens ocrToken =
     (if best_similarity toLowerCase dbTokens ocrToken > 7 / 10
      then best_token toLowerCase dbTokens ocrToken else Some ocrToken)"

definition token_corrections ::
  "(jsstring \<Rightarrow> jsstring) \<Rightarrow> jsstring list \<Rightarrow> jsstring \<Rightarrow> correction list" where
  "token_corrections toLowerCase dbTokens ocrToken =
     (if best_similarity toLowerCase dbTokens ocrToken > 7 / 10
         \<and> best_token toLowerCase dbTokens ocrToken \<noteq> Some ocrToken
      then [\<lparr>original = ocrToken, corrected = best_token toLowerCase dbTokens ocrToken,
             confidence = round (best_similarity toLowerCase dbTokens ocrToken * 100)\<rparr>]
      else [])"

definition reconcile ::
  "(jsstring \<Rightarrow> jsstring) \<Rightarrow> jsstring list \<Rightarrow> jsstring list \<Rightarrow> reconciliation" where
  "reconcile toLowerCase ocrTokens dbTokens =
     \<lparr>verified = map (verified_token toLowerCase dbTokens) ocrTokens,
      corrections = concat (map (token_corrections toLowerCase dbTokens) ocrTokens),
      dbIngredients = dbTokens\<rparr>"

section \<open>Example inputs\<close>

text \<open>A store that answers every name with one record, of raw ingredient text \<open>salt,tea\<close>.\<close>

definition example_store :: "jsstring \<Rightarrow> http_outcome" where
  "example_store name =
     Fulfilled (Some (JObj [(ascii ''body'',
       JObj [(ascii ''items'', JArr [JObj [(ascii ''RAWMTRL_NM'', JStr (ascii ''salt,tea''))]])])]))"

text \<open>
  The two Hangul words of scenario B, three syllables each: the OCR misreading (its last
  syllable is U+B958) and the entry of the record store (last syllable U+B8E8); and a
  store whose record has the latter as its raw ingredient text.
\<close>

definition token_milgaryu :: jsstring where
  "token_milgaryu = [0xBC00, 0xAC00, 0xB958]"

definition token_milgaru :: jsstring where
  "token_milgaru = [0xBC00, 0xAC00, 0xB8E8]"

definition scenario_B_store :: "jsstring \<Rightarrow> http_outcome" where
  "scenario_B_store name =
     Fulfilled (Some (JObj [(ascii ''body'',
       JObj [(ascii ''items'', JArr [JObj [(ascii ''rawmtrl_nm'', JStr token_milgaru)]])])]))"

subsection \<open>Decimal numerals as specified\<close>

text \<open>
  What a string of decimal digits denotes, read from the left: the number that
  \<open>${corrections.length}\<close> has to spell.  A code unit is a digit when it lies between
  U+0030 and U+0039.
\<close>

definition is_digit :: "16 word \<Rightarrow> bool" where
  "is_digit c = (0x30 \<le> c \<and> c \<le> 0x39)"

definition decimal_value :: "jsstring \<Rightarrow> nat" where
  "decimal_value s = foldl (\<lambda>acc c. 10 * acc + (unat c - 48)) 0 s"

section \<open>Properties of the Levenshtein distance\<close>

lemma levenshtein_Nil2: "levenshtein xs [] = length xs"
  by (cases xs) simp_all

lemma levenshtein_sym: "levenshtein xs ys = levenshtein ys xs"
proof (induction xs ys rule: levenshtein.induct)
  case (1 ys)
  then show ?case by (simp add: levenshtein_Nil2)
next
  case (2 x xs)
  then show ?case by simp
next
  case (3 x xs y ys)
  then show ?case by (simp add: min.commute min.left_commute eq_commute)
qed

lemma levenshtein_refl: "levenshtein xs xs = 0"
  by (induction xs) simp_all

lemma levenshtein_le_max: "levenshtein xs ys \<le> max (length xs) (length ys)"
proof (induction xs ys rule: levenshtein.induct)
  case (3 x xs y ys)
  have "levenshtein (x # xs) (y # ys) \<le> levenshtein xs ys + (if x = y then 0 else 1)"
    by simp
  also have "\<dots> \<le> Suc (max (length xs) (length ys))"
    using "3.IH"(3) by simp
  finally show ?case by simp
qed simp_all

lemma levenshtein_Cons_le: "levenshtein (x # xs) ys \<le> Suc (levenshtein xs ys)"
  by (cases ys) (simp_all add: levenshtein_Nil2)

lemma levenshtein_Cons2_le: "levenshtein xs (y # ys) \<le> Suc (levenshtein xs ys)"
  by (cases xs) (simp_all add: levenshtein_Nil2)

lemma length_le_levenshtein: "length xs \<le> levenshtein xs ys + length ys"
  by (induction xs ys rule: levenshtein.induct) (auto simp: min_def)

lemma levenshtein_drop2: "levenshtein xs ys \<le> Suc (levenshtein xs (y # ys))"
proof (induction xs ys arbitrary: y rule: levenshtein.induct)
  case (1 ys)
  then show ?case by simp
next
  case (2 x xs)
  have "length (x # xs) \<le> levenshtein (x # xs) [y] + length [y]"
    by (rule length_le_levenshtein)
  then show ?case by simp
next
  case (3 x xs y' ys)
  have a: "levenshtein (x # xs) (y' # ys) \<le> Suc (levenshtein xs (y' # ys))"
    by (rule levenshtein_Cons_le)
  have b: "levenshtein xs (y' # ys) \<le> Suc (levenshtein xs (y # y' # ys))"
    by (rule "3.IH"(1))
  have "levenshtein (x # xs) (y' # ys) \<le> Suc (Suc (levenshtein xs (y # y' # ys)))"
    using a b by linarith
  moreover have "levenshtein (x # xs) (y' # ys) \<le> Suc (levenshtein xs (y' # ys) + (if x = y then 0 else 1))"
    using a by simp
  ultimately show ?case
    unfolding levenshtein.simps(3)[of x xs y "y' # ys"] by (simp only: min_def split: if_splits) auto
qed

lemma levenshtein_drop1: "levenshtein xs ys \<le> Suc (levenshtein (x # xs) ys)"
  using levenshtein_drop2[of ys xs x] by (simp add: levenshtein_sym)

lemma levenshtein_same_head: "levenshtein (x # xs) (x # ys) = levenshtein xs ys"
  using levenshtein_drop1[of xs ys x] levenshtein_drop2[of xs ys x] 
    levenshtein_drop2[of xs "x # ys" x]
  by (simp add: min_def)

lemma levenshtein_Cons_Cons:
  "levenshtein (x # xs) (y # ys) =
     (if x = y then levenshtein xs ys
      else Suc (min (min (levenshtein xs ys) (levenshtein (x # xs) ys)) (levenshtein xs (y # ys))))"
  by (simp add: levenshtein_same_head del: levenshtein.simps) (simp add: min_def)


lemma edit_script_levenshtein: "edit_script xs ys (levenshtein xs ys)"
proof (induction xs ys rule: levenshtein.induct)
  case (1 ys)
  show ?case by (induction ys) (auto intro: edit_script.intros)
next
  case (2 x xs)
  have "edit_script zs [] (length zs)" for zs :: "'a list"
    by (induction zs) (auto intro: edit_script.intros)
  from this[of "x # xs"] show ?case by simp
next
  case (3 x xs y ys)
  let ?a = "Suc (levenshtein xs (y # ys))"
  let ?b = "Suc (levenshtein (x # xs) ys)"
  let ?c = "levenshtein xs ys + (if x = y then 0 else 1)"
  have a: "edit_script (x # xs) (y # ys) ?a"
    using "3.IH"(1) by (rule edit_script.delete)
  have b: "edit_script (x # xs) (y # ys) ?b"
    using "3.IH"(2) by (rule edit_script.insert)
  have c: "edit_script (x # xs) (y # ys) ?c"
    using "3.IH"(3) by (rule edit_script.keep_or_subst)
  have "levenshtein (x # xs) (y # ys) = ?a \<or> levenshtein (x # xs) (y # ys) = ?b
      \<or> levenshtein (x # xs) (y # ys) = ?c"
    unfolding levenshtein.simps(3) by (simp only: min_def split: if_splits) auto
  with a b c show ?case by metis
qed

lemma levenshtein_le_edit_script: "edit_script xs ys n \<Longrightarrow> levenshtein xs ys \<le> n"
proof (induction rule: edit_script.induct)
  case done_script
  show ?case by simp
next
  case (delete xs ys n x)
  then show ?case using levenshtein_Cons_le[of x xs ys] by linarith
next
  case (insert xs ys n y)
  then show ?case using levenshtein_Cons2_le[of xs y ys] by linarith
next
  case (keep_or_subst xs ys n x y)
  have "levenshtein (x # xs) (y # ys) \<le> levenshtein xs ys + (if x = y then 0 else 1)"
    by simp
  with keep_or_subst.IH show ?case by linarith
qed

lemma edit_script_snoc_delete: "edit_script xs ys n \<Longrightarrow> edit_script (xs @ [x]) ys (Suc n)"
proof (induction rule: edit_script.induct)
  case done_script
  show ?case using edit_script.delete[OF edit_script.done_script, of x] by simp
next
  case (delete xs ys n x')
  then show ?case using edit_script.delete[of "xs @ [x]" ys "Suc n" x'] by simp
next
  case (insert xs ys n y)
  from insert.IH show ?case by (rule edit_script.insert)
next
  case (keep_or_subst xs ys n x' y)
  then show ?case using edit_script.keep_or_subst[of "xs @ [x]" ys "Suc n" x' y] by simp
qed

lemma edit_script_snoc_insert: "edit_script xs ys n \<Longrightarrow> edit_script xs (ys @ [y]) (Suc n)"
proof (induction rule: edit_script.induct)
  case done_script
  show ?case using edit_script.insert[OF edit_script.done_script, of y] by simp
next
  case (delete xs ys n x)
  from delete.IH show ?case by (rule edit_script.delete)
next
  case (insert xs ys n y')
  then show ?case using edit_script.insert[of xs "ys @ [y]" "Suc n" y'] by simp
next
  case (keep_or_subst xs ys n x y')
  then show ?case using edit_script.keep_or_subst[of xs "ys @ [y]" "Suc n" x y'] by simp
qed

lemma edit_script_snoc_keep:
  "edit_script xs ys n \<Longrightarrow> edit_script (xs @ [x]) (ys @ [y]) (n + (if x = y then 0 else 1))"
proof (induction rule: edit_script.induct)
  case done_script
  show ?case using edit_script.keep_or_subst[OF edit_script.done_script, of x y] by simp
next
  case (delete xs ys n x')
  then show ?case
    using edit_script.delete[of "xs @ [x]" "ys @ [y]" "n + (if x = y then 0 else 1)" x'] by simp
next
  case (insert xs ys n y')
  then show ?case
    using edit_script.insert[of "xs @ [x]" "ys @ [y]" "n + (if x = y then 0 else 1)" y'] by simp
next
  case (keep_or_subst xs ys n x' y')
  then show ?case
    using edit_script.keep_or_subst[of "xs @ [x]" "ys @ [y]" "n + (if x = y then 0 else 1)" x' y']
    by (simp add: add.commute add.left_commute)
qed

lemma edit_script_rev: "edit_script xs ys n \<Longrightarrow> edit_script (rev xs) (rev ys) n"
proof (induction rule: edit_script.induct)
  case done_script
  show ?case by (simp add: edit_script.done_script)
next
  case (delete xs ys n x)
  then show ?case by (simp add: edit_script_snoc_delete)
next
  case (insert xs ys n y)
  then show ?case by (simp add: edit_script_snoc_insert)
next
  case (keep_or_subst xs ys n x y)
  then show ?case using edit_script_snoc_keep[of "rev xs" "rev ys" n x y] by simp
qed

lemma levenshtein_rev_le: "levenshtein (rev xs) (rev ys) \<le> levenshtein xs ys"
  by (rule levenshtein_le_edit_script) (rule edit_script_rev, rule edit_script_levenshtein)

lemma levenshtein_rev: "levenshtein (rev xs) (rev ys) = levenshtein xs ys"
  using levenshtein_rev_le[of xs ys] levenshtein_rev_le[of "rev xs" "rev ys"] by simp

section \<open>\<open>getEditDistance\<close> computes the Levenshtein distance\<close>

lemma prefix_distance_0_left: "j \<le> length s2 \<Longrightarrow> prefix_distance s1 s2 0 j = j"
  by (simp add: prefix_distance_def)

lemma prefix_distance_0_right: "i \<le> length s1 \<Longrightarrow> prefix_distance s1 s2 i 0 = i"
  by (simp add: prefix_distance_def levenshtein_Nil2)

lemma prefix_distance_Suc:
  assumes "i < length s1" "j < length s2"
  shows "prefix_distance s1 s2 (Suc i) (Suc j) =
     (if s1 ! i = s2 ! j then prefix_distance s1 s2 i j
      else Suc (min (min (prefix_distance s1 s2 i j) (prefix_distance s1 s2 (Suc i) j))
                    (prefix_distance s1 s2 i (Suc j))))"
proof -
  let ?xs = "rev (take i s1)" and ?ys = "rev (take j s2)"
  have r1: "rev (take (Suc i) s1) = s1 ! i # ?xs"
    using assms(1) by (simp add: take_Suc_conv_app_nth)
  have r2: "rev (take (Suc j) s2) = s2 ! j # ?ys"
    using assms(2) by (simp add: take_Suc_conv_app_nth)
  have d: "prefix_distance s1 s2 a b = levenshtein (rev (take a s1)) (rev (take b s2))" for a b
    by (simp add: prefix_distance_def levenshtein_rev)
  show ?thesis
    unfolding d r1 r2 by (rule levenshtein_Cons_Cons)
qed

lemma arr_get_map: "j < length xs \<Longrightarrow> arr_get (map f xs) j = f (xs ! j)"
  by (simp add: arr_get_def)

lemma arr_set_append: "arr_set a (length a) v = a @ [v]"
  by (simp add: arr_set_def)

lemma first_row_inner:
  "fold (inner_body s1 s2 0) [0..<k] ([], lv) = (map Some [0..<k], lv)"
proof (induction k)
  case 0
  show ?case by simp
next
  case (Suc k)
  have "arr_set (map Some [0..<k]) k (Some k) = map Some [0..<k] @ [Some k]"
    using arr_set_append[of "map Some [0..<k]" "Some k"] by simp
  with Suc show ?case by (simp add: inner_body_def)
qed

lemma first_row: "outer_body s1 s2 0 [] = cost_row s1 s2 0"
proof -
  have "map Some [0..<Suc (length s2)] = cost_row s1 s2 0"
    unfolding cost_row_def by (rule map_cong[OF refl]) (auto simp: prefix_distance_0_left)
  then show ?thesis
    unfolding outer_body_def first_row_inner by simp
qed


lemma later_row_inner:
  assumes i: "i < length s1" and k: "k \<le> length s2"
  shows "fold (inner_body s1 s2 (Suc i)) [0..<Suc k] (cost_row s1 s2 i, Some (Suc i)) =
     (map (\<lambda>j. Some (if j < k then prefix_distance s1 s2 (Suc i) j
                       else prefix_distance s1 s2 i j)) [0..<Suc (length s2)],
      Some (prefix_distance s1 s2 (Suc i) k))"
  using k
proof (induction k)
  case 0
  have "prefix_distance s1 s2 (Suc i) 0 = Suc i"
    using i by (simp add: prefix_distance_0_right)
  then show ?case by (simp add: inner_body_def cost_row_def)
next
  case (Suc k)
  let ?m = "length s2"
  let ?mid = "\<lambda>k. map (\<lambda>j. Some (if j < k then prefix_distance s1 s2 (Suc i) j
                       else prefix_distance s1 s2 i j)) [0..<Suc ?m]"
  from Suc.prems have k: "k < ?m" by simp
  have IH: "fold (inner_body s1 s2 (Suc i)) [0..<Suc k] (cost_row s1 s2 i, Some (Suc i)) =
     (?mid k, Some (prefix_distance s1 s2 (Suc i) k))"
    using Suc.IH k by simp
  have g1: "arr_get (?mid k) k = Some (prefix_distance s1 s2 i k)"
    using k by (simp add: arr_get_def del: upt_Suc)
  have g2: "arr_get (?mid k) (Suc k) = Some (prefix_distance s1 s2 i (Suc k))"
    using k by (simp add: arr_get_def del: upt_Suc)
  have ch: "(charAt s1 i \<noteq> charAt s2 k) = (s1 ! i \<noteq> s2 ! k)"
    using i k by (simp add: charAt_def)
  have upd: "arr_set (?mid k) k (Some (prefix_distance s1 s2 (Suc i) k)) = ?mid (Suc k)"
  proof (rule nth_equalityI)
    show "length (arr_set (?mid k) k (Some (prefix_distance s1 s2 (Suc i) k))) = length (?mid (Suc k))"
      using k by (simp add: arr_set_def del: upt_Suc)
  next
    fix j assume "j < length (arr_set (?mid k) k (Some (prefix_distance s1 s2 (Suc i) k)))"
    then have j: "j < Suc ?m" using k by (simp add: arr_set_def del: upt_Suc)
    show "arr_set (?mid k) k (Some (prefix_distance s1 s2 (Suc i) k)) ! j = ?mid (Suc k) ! j"
      using j k by (auto simp add: arr_set_def nth_list_update less_Suc_eq simp del: upt_Suc)
  qed
  have step: "inner_body s1 s2 (Suc i) (Suc k) (?mid k, Some (prefix_distance s1 s2 (Suc i) k))
      = (?mid (Suc k), Some (prefix_distance s1 s2 (Suc i) (Suc k)))"
    unfolding inner_body_def
    by (simp add: g1 g2 ch upd prefix_distance_Suc[OF i k] plus_one_def Let_def del: upt_Suc)
  have "[0..<Suc (Suc k)] = [0..<Suc k] @ [Suc k]" by simp
  then have "fold (inner_body s1 s2 (Suc i)) [0..<Suc (Suc k)] (cost_row s1 s2 i, Some (Suc i))
      = inner_body s1 s2 (Suc i) (Suc k)
          (fold (inner_body s1 s2 (Suc i)) [0..<Suc k] (cost_row s1 s2 i, Some (Suc i)))"
    by (simp only: fold_append comp_def fold_simps)
  then show ?case by (simp only: IH step)
qed

lemma later_row:
  assumes i: "i < length s1"
  shows "outer_body s1 s2 (Suc i) (cost_row s1 s2 i) = cost_row s1 s2 (Suc i)"
proof -
  let ?m = "length s2"
  let ?mid = "map (\<lambda>j. Some (if j < ?m then prefix_distance s1 s2 (Suc i) j
                       else prefix_distance s1 s2 i j)) [0..<Suc ?m]"
  have "arr_set ?mid ?m (Some (prefix_distance s1 s2 (Suc i) ?m)) = cost_row s1 s2 (Suc i)"
  proof (rule nth_equalityI)
    show "length (arr_set ?mid ?m (Some (prefix_distance s1 s2 (Suc i) ?m)))
        = length (cost_row s1 s2 (Suc i))"
      by (simp add: arr_set_def cost_row_def del: upt_Suc)
  next
    fix j assume "j < length (arr_set ?mid ?m (Some (prefix_distance s1 s2 (Suc i) ?m)))"
    then have j: "j < Suc ?m" by (simp add: arr_set_def del: upt_Suc)
    show "arr_set ?mid ?m (Some (prefix_distance s1 s2 (Suc i) ?m)) ! j = cost_row s1 s2 (Suc i) ! j"
      using j by (auto simp add: arr_set_def cost_row_def nth_list_update less_Suc_eq simp del: upt_Suc)
  qed
  then show ?thesis
    unfolding outer_body_def later_row_inner[OF i order_refl] by simp
qed

lemma all_rows:
  "k \<le> length s1 \<Longrightarrow> fold (outer_body s1 s2) [0..<Suc k] [] = cost_row s1 s2 k"
proof (induction k)
  case 0
  show ?case by (simp add: first_row)
next
  case (Suc k)
  then have "fold (outer_body s1 s2) [0..<Suc k] [] = cost_row s1 s2 k" by simp
  moreover have "[0..<Suc (Suc k)] = [0..<Suc k] @ [Suc k]" by simp
  ultimately have "fold (outer_body s1 s2) [0..<Suc (Suc k)] []
      = outer_body s1 s2 (Suc k) (cost_row s1 s2 k)"
    by (simp only: fold_append comp_def fold_simps)
  with Suc.prems show ?case by (simp add: later_row)
qed

lemma getEditDistance_levenshtein: "getEditDistance s1 s2 = Some (levenshtein s1 s2)"
proof -
  have "getEditDistance s1 s2 = arr_get (cost_row s1 s2 (length s1)) (length s2)"
    unfolding getEditDistance_def by (simp only: all_rows[OF order_refl])
  also have "\<dots> = Some (prefix_distance s1 s2 (length s1) (length s2))"
    by (simp add: cost_row_def arr_get_def del: upt_Suc)
  finally show ?thesis by (simp add: prefix_distance_def)
qed

section \<open>\<open>calculateSimilarity\<close> meets its specification\<close>

lemma calculateSimilarity_Some:
  "calculateSimilarity (Some s) (Some t) =
     Some (if s = [] \<or> t = [] then 0
           else (of_nat (max (length s) (length t)) - of_nat (levenshtein s t))
                  / of_nat (max (length s) (length t)))"
proof (cases "s = [] \<or> t = []")
  case True
  then show ?thesis by (simp add: calculateSimilarity_def)
next
  case False
  then have ne: "s \<noteq> []" "t \<noteq> []" by simp_all
  show ?thesis
  proof (cases "length s > length t")
    case True
    then have m: "max (length s) (length t) = length s" by simp
    from True ne show ?thesis
      unfolding calculateSimilarity_def m
      by (simp add: getEditDistance_levenshtein)
  next
    case False
    then have m: "max (length s) (length t) = length t" by simp
    from False ne show ?thesis
      unfolding calculateSimilarity_def m
      by (simp add: getEditDistance_levenshtein levenshtein_sym[of t s])
  qed
qed

lemma calculateSimilarity_similarity: "calculateSimilarity a b = Some (similarity a b)"
proof (cases a)
  case None
  then show ?thesis by (simp add: calculateSimilarity_def similarity_def)
next
  case (Some s)
  show ?thesis
  proof (cases b)
    case None
    with Some show ?thesis by (simp add: calculateSimilarity_def similarity_def)
  next
    case b: (Some t)
    show ?thesis unfolding Some b calculateSimilarity_Some by (simp add: similarity_def)
  qed
qed

lemma quotient_bounds:
  fixes n d :: nat
  assumes "d \<le> n"
  shows "0 \<le> (of_nat n - of_nat d :: rat) / of_nat n \<and> (of_nat n - of_nat d :: rat) / of_nat n \<le> 1"
proof -
  have eq: "(of_nat n - of_nat d :: rat) = of_nat (n - d)"
    using assms by simp
  have "(of_nat (n - d) :: rat) \<le> of_nat n" by simp
  then have "(of_nat (n - d) :: rat) / of_nat n \<le> 1"
    by (cases "n = 0") (simp_all add: divide_le_eq_1)
  then show ?thesis unfolding eq by simp
qed

lemma similarity_bounds: "0 \<le> similarity a b \<and> similarity a b \<le> 1"
proof (cases a)
  case None
  then show ?thesis by (simp add: similarity_def)
next
  case (Some s)
  show ?thesis
  proof (cases b)
    case None
    with Some show ?thesis by (simp add: similarity_def)
  next
    case b: (Some t)
    show ?thesis
      using quotient_bounds[OF levenshtein_le_max[of s t]]
      unfolding Some b similarity_def by simp
  qed
qed

lemma similarity_same: "similarity (Some s) (Some s) = (if s = [] then 0 else 1)"
  by (simp add: similarity_def levenshtein_refl)

section \<open>The loops of \<open>verifyIngredients\<close>\<close>

lemma match_body_eq:
  "match_body lc ocr d (m, s) =
     (if token_similarity lc ocr d > s then (Some d, token_similarity lc ocr d) else (m, s))"
  by (simp add: match_body_def token_similarity_def calculateSimilarity_similarity)

lemma Max_absorb_head:
  fixes a b :: rat
  shows "Max (set (max a b # xs)) = Max (set (a # b # xs))"
proof (cases "xs = []")
  case True
  then show ?thesis by (simp add: max.commute)
next
  case False
  then have ne: "set xs \<noteq> {}" by simp
  have "Max (insert (max a b) (set xs)) = max (max a b) (Max (set xs))"
    using ne by (simp only: Max_insert[OF finite_set ne])
  moreover have "Max (insert a (insert b (set xs))) = max a (max b (Max (set xs)))"
    using ne by (simp only: Max_insert[OF finite_set ne] Max_insert[OF finite.insertI[OF finite_set] insert_not_empty])
  ultimately show ?thesis by (simp only: list.set max.assoc)
qed


lemma fold_match_body:
  "fold (match_body lc ocr) db (m, s) =
     (let best = Max (set (s # map (token_similarity lc ocr) db))
      in (if best > s then find (\<lambda>d. token_similarity lc ocr d = best) db else m, best))"
proof (induction db arbitrary: m s)
  case Nil
  show ?case by simp
next
  case (Cons d ds)
  define t where "t = token_similarity lc ocr d"
  define M where "M = Max (set (s # t # map (token_similarity lc ocr) ds))"
  have M: "Max (set (max s t # map (token_similarity lc ocr) ds)) = M"
    unfolding M_def by (rule Max_absorb_head)
  have ge: "max s t \<le> M"
    unfolding M[symmetric] by (rule Max_ge) simp_all
  have goal: "(let best = Max (set (s # map (token_similarity lc ocr) (d # ds)))
      in (if best > s then find (\<lambda>d. token_similarity lc ocr d = best) (d # ds) else m, best))
      = (if M > s then (if t = M then Some d else find (\<lambda>d. token_similarity lc ocr d = M) ds) else m, M)"
    unfolding M_def t_def by (simp only: Let_def list.map find.simps)
  show ?case
  proof (cases "t > s")
    case True
    then have mx: "max s t = t" by simp
    have M': "Max (set (t # map (token_similarity lc ocr) ds)) = M"
      using M by (simp only: mx)
    have "fold (match_body lc ocr) (d # ds) (m, s) = fold (match_body lc ocr) ds (Some d, t)"
      using True by (simp add: match_body_eq t_def)
    also have "\<dots> = (if M > t then find (\<lambda>d. token_similarity lc ocr d = M) ds else Some d, M)"
      by (simp only: Cons.IH M' Let_def)
    also have "\<dots> = (if M > s then (if t = M then Some d else find (\<lambda>d. token_similarity lc ocr d = M) ds) else m, M)"
      using True ge mx by (cases "t = M") simp_all
    finally show ?thesis by (simp only: goal)
  next
    case False
    then have mx: "max s t = s" by simp
    have M': "Max (set (s # map (token_similarity lc ocr) ds)) = M"
      using M by (simp only: mx)
    have "fold (match_body lc ocr) (d # ds) (m, s) = fold (match_body lc ocr) ds (m, s)"
      using False by (simp add: match_body_eq t_def)
    also have "\<dots> = (if M > s then find (\<lambda>d. token_similarity lc ocr d = M) ds else m, M)"
      by (simp only: Cons.IH M' Let_def)
    also have "\<dots> = (if M > s then (if t = M then Some d else find (\<lambda>d. token_similarity lc ocr d = M) ds) else m, M)"
      using False ge mx by (cases "t = M") simp_all
    finally show ?thesis by (simp only: goal)
  qed
qed


lemma best_match:
  "fold (match_body lc ocr) db (None, 0) =
     (if best_similarity lc db ocr > 0 then best_token lc db ocr else None,
      best_similarity lc db ocr)"
  by (simp only: fold_match_body best_similarity_def best_token_def Let_def)

lemma verify_body_eq:
  "verify_body lc db ocr (vs, cs) =
     (vs @ [verified_token lc db ocr], cs @ token_corrections lc db ocr)"
proof (cases "best_similarity lc db ocr > 7 / 10")
  case True
  then have pos: "best_similarity lc db ocr > 0" by simp
  show ?thesis
  proof (cases "best_token lc db ocr = Some ocr")
    case eq: True
    show ?thesis
      unfolding verify_body_def best_match verified_token_def token_corrections_def
      using True pos eq by simp
  next
    case ne: False
    then have "Some ocr \<noteq> best_token lc db ocr" by (simp add: eq_commute)
    then show ?thesis
      unfolding verify_body_def best_match verified_token_def token_corrections_def
      using True pos ne by simp
  qed
next
  case False
  then show ?thesis
    unfolding verify_body_def best_match verified_token_def token_corrections_def by simp
qed

lemma fold_verify_body:
  "fold (verify_body lc db) ocrs (vs, cs) =
     (vs @ map (verified_token lc db) ocrs, cs @ concat (map (token_corrections lc db) ocrs))"
  by (induction ocrs arbitrary: vs cs) (simp_all add: verify_body_eq)

lemma verifyIngredients_reconcile:
  "verifyIngredients lc ocrs raw = reconcile lc ocrs (parseIngredients raw)"
  by (simp add: verifyIngredients_def reconcile_def fold_verify_body Let_def)

section \<open>Best matches, rounding, empty tokens\<close>

lemma best_similarity_ge: "d \<in> set db \<Longrightarrow> token_similarity lc ocr d \<le> best_similarity lc db ocr"
  unfolding best_similarity_def by (rule Max_ge) simp_all

lemma best_similarity_le_1: "best_similarity lc db ocr \<le> 1"
proof -
  have "\<forall>a \<in> set (0 # map (token_similarity lc ocr) db). a \<le> 1"
    using similarity_bounds by (auto simp add: token_similarity_def)
  then show ?thesis
    unfolding best_similarity_def by (subst Max_le_iff) simp_all
qed

lemma best_token_Some:
  assumes "best_similarity lc db ocr > 0"
  shows "\<exists>d \<in> set db. best_token lc db ocr = Some d
           \<and> token_similarity lc ocr d = best_similarity lc db ocr"
proof -
  have "best_similarity lc db ocr \<in> set (0 # map (token_similarity lc ocr) db)"
    unfolding best_similarity_def by (rule Max_in) simp_all
  with assms have "best_similarity lc db ocr \<in> token_similarity lc ocr ` set db" by auto
  then obtain d0 where d0: "d0 \<in> set db" "token_similarity lc ocr d0 = best_similarity lc db ocr"
    by auto
  then have "best_token lc db ocr \<noteq> None"
    unfolding best_token_def by (auto simp add: find_None_iff)
  then obtain d where d: "best_token lc db ocr = Some d" by auto
  then have "d \<in> set db" "token_similarity lc ocr d = best_similarity lc db ocr"
    unfolding best_token_def by (auto simp add: find_Some_iff)
  with d show ?thesis by auto
qed

lemma best_token_first:
  assumes "best_token lc db ocr = Some d"
  shows "\<exists>i < length db. db ! i = d \<and> token_similarity lc ocr d = best_similarity lc db ocr
           \<and> (\<forall>j < i. token_similarity lc ocr (db ! j) < best_similarity lc db ocr)"
proof -
  from assms obtain i where i: "i < length db" "db ! i = d"
      "token_similarity lc ocr d = best_similarity lc db ocr"
      "\<forall>j < i. token_similarity lc ocr (db ! j) \<noteq> best_similarity lc db ocr"
    unfolding best_token_def find_Some_iff by auto
  have "token_similarity lc ocr (db ! j) < best_similarity lc db ocr" if "j < i" for j
  proof -
    from that i(1) have "db ! j \<in> set db" by simp
    then have "token_similarity lc ocr (db ! j) \<le> best_similarity lc db ocr"
      by (rule best_similarity_ge)
    with i(4) that show ?thesis by (simp add: order.strict_iff_order)
  qed
  with i show ?thesis by blast
qed

lemma round_percent_bounds:
  fixes s :: rat
  assumes "7 / 10 < s" "s \<le> 1"
  shows "70 \<le> round (s * 100) \<and> round (s * 100) \<le> 100"
proof -
  have "(70::rat) \<le> s * 100 + 1 / 2" using assms(1) by simp
  then have "70 \<le> \<lfloor>s * 100 + 1 / 2\<rfloor>" by (simp add: le_floor_iff)
  moreover have "s * 100 + 1 / 2 < 101" using assms(2) by simp
  then have "\<lfloor>s * 100 + 1 / 2\<rfloor> < 101" by (simp add: floor_less_iff)
  ultimately show ?thesis by (simp add: round_def)
qed

lemma token_corrections_cases:
  "token_corrections lc db ocr = [] \<or>
   (\<exists>d \<in> set db. d \<noteq> ocr \<and> best_similarity lc db ocr > 7 / 10
      \<and> best_token lc db ocr = Some d
      \<and> token_corrections lc db ocr =
          [\<lparr>original = ocr, corrected = Some d,
            confidence = round (best_similarity lc db ocr * 100)\<rparr>])"
proof (cases "best_similarity lc db ocr > 7 / 10 \<and> best_token lc db ocr \<noteq> Some ocr")
  case False
  then show ?thesis by (auto simp add: token_corrections_def)
next
  case True
  then have "best_similarity lc db ocr > 0" by simp
  from best_token_Some[OF this] obtain d where
    d: "d \<in> set db" "best_token lc db ocr = Some d" by auto
  with True show ?thesis by (auto simp add: token_corrections_def)
qed

lemma empty_token_similarity: "lc [] = [] \<Longrightarrow> token_similarity lc [] d = 0"
  by (simp add: token_similarity_def similarity_def)

lemma empty_token_best: "lc [] = [] \<Longrightarrow> best_similarity lc db [] = 0"
proof -
  assume "lc [] = []"
  then have "set (0 # map (token_similarity lc []) db) = {0}"
    by (auto simp add: empty_token_similarity)
  then show ?thesis unfolding best_similarity_def by (simp only: Max_singleton)
qed

lemma no_db_best: "best_similarity lc [] ocr = 0"
  by (simp add: best_similarity_def)

section \<open>Splitting and trimming\<close>

lemma split_from_append: "split_from piece s = (case split_from [] s of p # ps \<Rightarrow> (piece @ p) # ps | [] \<Rightarrow> [])"
proof (induction s arbitrary: piece)
  case Nil
  show ?case by simp
next
  case (Cons c cs)
  show ?case
  proof (cases "is_delim c")
    case True
    then show ?thesis by simp
  next
    case False
    then show ?thesis
      using Cons.IH[of "piece @ [c]"] Cons.IH[of "[c]"]
      by (simp split: list.splits)
  qed
qed

lemma split_from_not_Nil: "split_from piece s \<noteq> []"
  by (induction s arbitrary: piece) simp_all

lemma split_Nil: "split [] = [[]]"
  by (simp add: split_def)

lemma split_delim: "is_delim c \<Longrightarrow> split (c # cs) = [] # split cs"
  by (simp add: split_def)

lemma split_other:
  "\<not> is_delim c \<Longrightarrow> split (c # cs) = (c # hd (split cs)) # tl (split cs)"
  using split_from_append[of "[c]" cs] split_from_not_Nil[of "[]" cs]
  by (simp add: split_def split: list.splits)

lemma split_unfold:
  "split s =
     (case dropWhile (\<lambda>c. \<not> is_delim c) s of
        [] \<Rightarrow> [takeWhile (\<lambda>c. \<not> is_delim c) s]
      | d # rest \<Rightarrow> takeWhile (\<lambda>c. \<not> is_delim c) s # split rest)"
proof (induction s)
  case Nil
  show ?case by (simp add: split_Nil)
next
  case (Cons c cs)
  show ?case
  proof (cases "is_delim c")
    case True
    then show ?thesis by (simp add: split_delim)
  next
    case False
    have dw: "dropWhile (\<lambda>c. \<not> is_delim c) (c # cs) = dropWhile (\<lambda>c. \<not> is_delim c) cs"
      using False by simp
    have tw: "takeWhile (\<lambda>c. \<not> is_delim c) (c # cs) = c # takeWhile (\<lambda>c. \<not> is_delim c) cs"
      using False by simp
    have so: "split (c # cs) = (c # hd (split cs)) # tl (split cs)"
      using False by (rule split_other)
    show ?thesis
    proof (cases "dropWhile (\<lambda>c. \<not> is_delim c) cs")
      case dn: Nil
      have "split cs = [takeWhile (\<lambda>c. \<not> is_delim c) cs]"
        by (simp only: Cons.IH dn list.case)
      then show ?thesis unfolding so dw tw dn by simp
    next
      case dc: (Cons d rest)
      have "split cs = takeWhile (\<lambda>c. \<not> is_delim c) cs # split rest"
        by (simp only: Cons.IH dc list.case)
      then show ?thesis unfolding so dw tw dc by simp
    qed
  qed
qed

lemma split_pieces_clean: "p \<in> set (split s) \<Longrightarrow> c \<in> set p \<Longrightarrow> \<not> is_delim c"
proof (induction s arbitrary: p)
  case Nil
  then show ?case by (simp add: split_Nil)
next
  case (Cons a s)
  show ?case
  proof (cases "is_delim a")
    case True
    with Cons show ?thesis by (auto simp add: split_delim)
  next
    case False
    have ne: "split s \<noteq> []" by (simp add: split_def split_from_not_Nil)
    from Cons.prems(1) False have "p = a # hd (split s) \<or> p \<in> set (tl (split s))"
      by (simp add: split_other)
    then show ?thesis
    proof
      assume p: "p = a # hd (split s)"
      with Cons.prems(2) have "c = a \<or> c \<in> set (hd (split s))" by simp
      with False Cons.IH[of "hd (split s)"] ne show ?thesis by auto
    next
      assume "p \<in> set (tl (split s))"
      then have "p \<in> set (split s)" using ne by (auto dest: list.set_sel(2))
      with Cons.IH Cons.prems(2) show ?thesis by blast
    qed
  qed
qed

lemma split_length: "length (split s) = Suc (length (filter is_delim s))"
proof (induction s)
  case Nil
  show ?case by (simp add: split_Nil)
next
  case (Cons a s)
  have ne: "split s \<noteq> []" by (simp add: split_def split_from_not_Nil)
  then show ?case using Cons by (cases "is_delim a") (simp_all add: split_delim split_other)
qed

lemma trim_decomposition:
  "\<exists>l r. s = l @ trim s @ r \<and> (\<forall>c \<in> set l. is_space c) \<and> (\<forall>c \<in> set r. is_space c)"
proof -
  let ?l = "takeWhile is_space s"
  let ?m = "dropWhile is_space s"
  let ?r = "rev (takeWhile is_space (rev ?m))"
  have "rev ?m = takeWhile is_space (rev ?m) @ dropWhile is_space (rev ?m)" by simp
  then have "?m = rev (dropWhile is_space (rev ?m)) @ ?r"
    by (metis rev_append rev_rev_ident)
  then have "?m = trim s @ ?r" by (simp add: trim_def)
  moreover have "s = ?l @ ?m" by simp
  ultimately have "s = ?l @ trim s @ ?r" by simp
  moreover have "\<forall>c \<in> set ?l. is_space c" by (auto dest: set_takeWhileD)
  moreover have "\<forall>c \<in> set ?r. is_space c" by (auto dest: set_takeWhileD)
  ultimately show ?thesis by blast
qed

lemma trim_ends:
  assumes "trim s \<noteq> []"
  shows "\<not> is_space (hd (trim s)) \<and> \<not> is_space (last (trim s))"
proof -
  let ?m = "dropWhile is_space s"
  let ?d = "dropWhile is_space (rev ?m)"
  have t: "trim s = rev ?d" by (simp add: trim_def)
  with assms have d: "?d \<noteq> []" by simp
  then have l: "\<not> is_space (hd ?d)" by (rule hd_dropWhile)
  have "last (trim s) = hd ?d" unfolding t using d by (simp add: last_rev)
  with l have last: "\<not> is_space (last (trim s))" by simp
  have m: "?m \<noteq> []"
  proof
    assume e: "?m = []"
    have "?d = dropWhile is_space (rev [])" by (simp only: e)
    with d show False by simp
  qed
  then have hm: "\<not> is_space (hd ?m)" by (rule hd_dropWhile)
  have "rev ?m \<noteq> []" using m by simp
  have "last (rev ?m) = hd ?m" using m by (simp add: last_rev)
  have "hd (trim s) = last ?d" unfolding t using d by (simp add: hd_rev)
  also have "\<dots> = last (rev ?m)"
  proof -
    have "rev ?m = takeWhile is_space (rev ?m) @ ?d" by simp
    then have "last (rev ?m) = last (takeWhile is_space (rev ?m) @ ?d)" by simp
    also have "\<dots> = last ?d" using d by (rule last_appendR)
    finally show ?thesis by simp
  qed
  also have "\<dots> = hd ?m" using m by (simp add: last_rev)
  finally have "hd (trim s) = hd ?m" .
  with hm last show ?thesis by simp
qed

section \<open>The decimal digits of a count\<close>

lemma digit_unit:
  assumes "d < 10"
  shows "unat (of_nat (48 + d) :: 16 word) = 48 + d"
proof -
  have "48 + d < 2 ^ 16" using assms by simp
  then have "(48 + d) mod 2 ^ LENGTH(16) = 48 + d" by simp
  then show ?thesis by (simp only: unat_of_nat)
qed

lemma digit_is_digit: "d < 10 \<Longrightarrow> is_digit (of_nat (48 + d))"
  using digit_unit[of d] by (simp add: is_digit_def word_le_nat_alt)

lemma decimal_value_snoc:
  "decimal_value (s @ [c]) = 10 * decimal_value s + (unat c - 48)"
  by (simp add: decimal_value_def)

lemma decimal_not_Nil: "decimal n \<noteq> []"
  by (subst decimal.simps) simp

lemma decimal_value_decimal: "decimal_value (decimal n) = n"
proof (induction n rule: decimal.induct)
  case (1 n)
  show ?case
  proof (cases "n < 10")
    case True
    have "decimal n = [of_nat (48 + n)]" using True by (subst decimal.simps) simp
    then show ?thesis using digit_unit[OF True] by (simp add: decimal_value_def)
  next
    case False
    have m: "n mod 10 < 10" by simp
    have "decimal n = decimal (n div 10) @ [of_nat (48 + n mod 10)]"
      using False by (subst decimal.simps) simp
    then have "decimal_value (decimal n) = 10 * decimal_value (decimal (n div 10)) + n mod 10"
      using digit_unit[OF m] by (simp add: decimal_value_snoc)
    with "1.IH"[OF False] show ?thesis by simp
  qed
qed

lemma decimal_digits: "c \<in> set (decimal n) \<Longrightarrow> is_digit c"
proof (induction n rule: decimal.induct)
  case (1 n)
  show ?case
  proof (cases "n < 10")
    case True
    have "decimal n = [of_nat (48 + n)]" using True by (subst decimal.simps) simp
    with "1.prems" digit_is_digit[OF True] show ?thesis by simp
  next
    case False
    have m: "n mod 10 < 10" by simp
    have "decimal n = decimal (n div 10) @ [of_nat (48 + n mod 10)]"
      using False by (subst decimal.simps) simp
    with "1.prems" have "c \<in> set (decimal (n div 10)) \<or> c = of_nat (48 + n mod 10)" by auto
    with "1.IH"[OF False] digit_is_digit[OF m] show ?thesis by auto
  qed
qed

lemma decimal_no_leading_zero: "n \<noteq> 0 \<Longrightarrow> hd (decimal n) \<noteq> 0x30"
proof (induction n rule: decimal.induct)
  case (1 n)
  show ?case
  proof (cases "n < 10")
    case True
    have d: "decimal n = [of_nat (48 + n)]" using True by (subst decimal.simps) simp
    have "unat (of_nat (48 + n) :: 16 word) \<noteq> unat (0x30 :: 16 word)"
      using digit_unit[OF True] "1.prems" by simp
    then have "(of_nat (48 + n) :: 16 word) \<noteq> 0x30" by auto
    with d show ?thesis by simp
  next
    case False
    then have nz: "n div 10 \<noteq> 0" by simp
    have "decimal n = decimal (n div 10) @ [of_nat (48 + n mod 10)]"
      using False by (subst decimal.simps) simp
    then have "hd (decimal n) = hd (decimal (n div 10))"
      using decimal_not_Nil[of "n div 10"] by simp
    with "1.IH"[OF False nz] show ?thesis by simp
  qed
qed

lemma decimal_zero: "decimal 0 = [0x30]"
  by (subst decimal.simps) simp

lemma is_digit_unat: "is_digit c \<Longrightarrow> 48 \<le> unat c \<and> unat c \<le> 57"
  by (simp add: is_digit_def word_le_nat_alt)

lemma digit_back: "is_digit c \<Longrightarrow> (of_nat (48 + (unat c - 48)) :: 16 word) = c"
proof -
  assume "is_digit c"
  from is_digit_unat[OF this] have "48 + (unat c - 48) = unat c" by linarith
  then show ?thesis by simp
qed

lemma decimal_value_positive:
  "s \<noteq> [] \<Longrightarrow> \<forall>c \<in> set s. is_digit c \<Longrightarrow> hd s \<noteq> 0x30 \<Longrightarrow> 0 < decimal_value s"
proof (induction s rule: rev_induct)
  case Nil
  then show ?case by simp
next
  case (snoc c xs)
  show ?case
  proof (cases "xs = []")
    case True
    with snoc.prems have d: "is_digit c" and z: "c \<noteq> 0x30" by simp_all
    have "unat c \<noteq> unat (0x30 :: 16 word)" using z by (simp only: word_unat_eq_iff[symmetric]) simp
    then have "unat c \<noteq> 48" by simp
    with is_digit_unat[OF d] have "48 < unat c" by simp
    with True show ?thesis by (simp add: decimal_value_def)
  next
    case False
    with snoc.prems have "\<forall>c \<in> set xs. is_digit c" "hd xs \<noteq> 0x30" by simp_all
    with snoc.IH False have "0 < decimal_value xs" by simp
    then show ?thesis by (simp add: decimal_value_snoc)
  qed
qed

lemma decimal_unique:
  "s \<noteq> [] \<Longrightarrow> \<forall>c \<in> set s. is_digit c \<Longrightarrow> (hd s = 0x30 \<longrightarrow> s = [0x30]) \<Longrightarrow>
     decimal (decimal_value s) = s"
proof (induction s rule: rev_induct)
  case Nil
  then show ?case by simp
next
  case (snoc c xs)
  from snoc.prems have d: "is_digit c" by simp
  let ?k = "unat c - 48"
  have k: "?k < 10" using is_digit_unat[OF d] by linarith
  show ?case
  proof (cases "xs = []")
    case True
    have "decimal_value [c] = ?k" by (simp add: decimal_value_def)
    moreover have "decimal ?k = [of_nat (48 + ?k)]" using k by (subst decimal.simps) simp
    ultimately show ?thesis using True digit_back[OF d] by simp
  next
    case False
    with snoc.prems have ds: "\<forall>c \<in> set xs. is_digit c" by simp
    have h: "hd xs \<noteq> 0x30"
    proof
      assume "hd xs = 0x30"
      with False have "hd (xs @ [c]) = 0x30" by simp
      with snoc.prems(3) have "xs @ [c] = [0x30]" by blast
      with False show False by (cases xs) simp_all
    qed
    have pos: "0 < decimal_value xs" using False ds h by (rule decimal_value_positive)
    have IH: "decimal (decimal_value xs) = xs" using snoc.IH False ds h by simp
    let ?n = "10 * decimal_value xs + ?k"
    have v: "decimal_value (xs @ [c]) = ?n" by (rule decimal_value_snoc)
    have ge: "\<not> ?n < 10" using pos by simp
    have dv: "?n div 10 = decimal_value xs" using k by (simp only: div_mult_self3 div_less)
    have md: "?n mod 10 = ?k" using k by simp
    have "decimal ?n = decimal (?n div 10) @ [of_nat (48 + ?n mod 10)]"
      using ge by (subst decimal.simps) simp
    then have "decimal ?n = xs @ [c]"
      by (simp only: dv md IH digit_back[OF d])
    then show ?thesis by (simp only: v)
  qed
qed

section \<open>The claims of the specification\<close>

text \<open>
  Claim C1.  \<open>verifyIngredients\<close> is the reconciliation as specified: the OCR tokens are
  taken in their order; each is compared, lower-cased, with every lower-cased DB token by
  \<open>calculateSimilarity\<close>; the DB token kept is the first one that reaches the greatest
  similarity; above \<open>0.70\<close> that DB token goes to \<open>verified\<close>, with a correction carrying
  the rounded percentage exactly when it is not the OCR token itself; at \<open>0.70\<close> or below
  the OCR token goes to \<open>verified\<close> and there is no correction.
\<close>

theorem verifyIngredients_algorithm:
  "verifyIngredients toLowerCase ocrTokens raw
     = reconcile toLowerCase ocrTokens (parseIngredients raw)
   \<and> calculateSimilarity (Some (toLowerCase ocrToken)) (Some (toLowerCase dbToken))
       = Some (token_similarity toLowerCase ocrToken dbToken)
   \<and> (\<forall>d \<in> set dbTokens.
         token_similarity toLowerCase ocrToken d \<le> best_similarity toLowerCase dbTokens ocrToken)
   \<and> (0 < best_similarity toLowerCase dbTokens ocrToken \<longrightarrow>
        (\<exists>i < length dbTokens.
           best_token toLowerCase dbTokens ocrToken = Some (dbTokens ! i)
           \<and> token_similarity toLowerCase ocrToken (dbTokens ! i)
               = best_similarity toLowerCase dbTokens ocrToken
           \<and> (\<forall>j < i. token_similarity toLowerCase ocrToken (dbTokens ! j)
                         < best_similarity toLowerCase dbTokens ocrToken)))"
proof (intro conjI ballI impI)
  show "verifyIngredients toLowerCase ocrTokens raw
     = reconcile toLowerCase ocrTokens (parseIngredients raw)"
    by (rule verifyIngredients_reconcile)
  show "calculateSimilarity (Some (toLowerCase ocrToken)) (Some (toLowerCase dbToken))
       = Some (token_similarity toLowerCase ocrToken dbToken)"
    by (simp add: calculateSimilarity_similarity token_similarity_def)
  show "token_similarity toLowerCase ocrToken d \<le> best_similarity toLowerCase dbTokens ocrToken"
    if "d \<in> set dbTokens" for d
    using that by (rule best_similarity_ge)
  show "\<exists>i < length dbTokens.
           best_token toLowerCase dbTokens ocrToken = Some (dbTokens ! i)
           \<and> token_similarity toLowerCase ocrToken (dbTokens ! i)
               = best_similarity toLowerCase dbTokens ocrToken
           \<and> (\<forall>j < i. token_similarity toLowerCase ocrToken (dbTokens ! j)
                         < best_similarity toLowerCase dbTokens ocrToken)"
    if "0 < best_similarity toLowerCase dbTokens ocrToken"
  proof -
    from best_token_Some[OF that] obtain d where
      "best_token toLowerCase dbTokens ocrToken = Some d" by auto
    with best_token_first[OF this] show ?thesis by auto
  qed
qed

theorem verifyIngredients_algorithm_witness:
  "verifyIngredients toLowerCase_basic [ascii ''solt'', ascii ''Tea'', ascii ''egg'']
       (Some (ascii ''salt,tea'')) =
     \<lparr>verified = [Some (ascii ''salt''), Some (ascii ''tea''), Some (ascii ''egg'')],
      corrections =
        [\<lparr>original = ascii ''solt'', corrected = Some (ascii ''salt''), confidence = 75\<rparr>,
         \<lparr>original = ascii ''Tea'', corrected = Some (ascii ''tea''), confidence = 100\<rparr>],
      dbIngredients = [ascii ''salt'', ascii ''tea'']\<rparr>
   \<and> best_token toLowerCase_basic [ascii ''salt'', ascii ''tea''] (ascii ''solt'')
       = Some (ascii ''salt'')
   \<and> best_similarity toLowerCase_basic [ascii ''salt'', ascii ''tea''] (ascii ''solt'') = 3 / 4"
proof -
  have r: "reconcile toLowerCase_basic [ascii ''solt'', ascii ''Tea'', ascii ''egg'']
       (parseIngredients (Some (ascii ''salt,tea''))) =
     \<lparr>verified = [Some (ascii ''salt''), Some (ascii ''tea''), Some (ascii ''egg'')],
      corrections =
        [\<lparr>original = ascii ''solt'', corrected = Some (ascii ''salt''), confidence = 75\<rparr>,
         \<lparr>original = ascii ''Tea'', corrected = Some (ascii ''tea''), confidence = 100\<rparr>],
      dbIngredients = [ascii ''salt'', ascii ''tea'']\<rparr>"
    by code_simp
  have b: "best_similarity toLowerCase_basic [ascii ''salt'', ascii ''tea''] (ascii ''solt'') = 3 / 4"
    by code_simp
  have t: "best_token toLowerCase_basic [ascii ''salt'', ascii ''tea''] (ascii ''solt'')
       = Some (ascii ''salt'')"
    by code_simp
  show ?thesis
    using verifyIngredients_algorithm[of toLowerCase_basic
        "[ascii ''solt'', ascii ''Tea'', ascii ''egg'']" "Some (ascii ''salt,tea'')"
        "ascii ''solt''" "ascii ''salt''" "[ascii ''salt'', ascii ''tea'']"] r b t
    by simp
qed

text \<open>
  Claim C4.  \<open>calculateSimilarity\<close> returns 0 when either string is absent or empty;
  otherwise it returns the length of the longer string minus the classic Levenshtein
  distance of the two strings, over the length of the longer string.  A non-empty
  string has similarity 1 with itself, and every result lies between 0 and 1.  The
  distance is the cost of a cheapest script of insertions, deletions and substitutions.
\<close>

theorem calculateSimilarity_levenshtein:
  "calculateSimilarity a b = Some (similarity a b)
   \<and> calculateSimilarity None b = Some 0 \<and> calculateSimilarity a None = Some 0
   \<and> calculateSimilarity (Some []) b = Some 0 \<and> calculateSimilarity a (Some []) = Some 0
   \<and> (s \<noteq> [] \<and> t \<noteq> [] \<longrightarrow>
        calculateSimilarity (Some s) (Some t)
          = Some ((of_nat (max (length s) (length t)) - of_nat (levenshtein s t))
                    / of_nat (max (length s) (length t))))
   \<and> (s \<noteq> [] \<longrightarrow> calculateSimilarity (Some s) (Some s) = Some 1)
   \<and> (\<exists>r. calculateSimilarity a b = Some r \<and> 0 \<le> r \<and> r \<le> 1)
   \<and> edit_script s t (levenshtein s t)
   \<and> (\<forall>n. edit_script s t n \<longrightarrow> levenshtein s t \<le> n)"
proof (intro conjI impI allI)
  show "calculateSimilarity a b = Some (similarity a b)"
    by (rule calculateSimilarity_similarity)
  show "calculateSimilarity None b = Some 0"
    by (simp add: calculateSimilarity_def)
  show "calculateSimilarity a None = Some 0"
    by (simp add: calculateSimilarity_def split: option.splits)
  show "calculateSimilarity (Some []) b = Some 0"
    by (simp add: calculateSimilarity_def split: option.splits)
  show "calculateSimilarity a (Some []) = Some 0"
    by (simp add: calculateSimilarity_def split: option.splits)
  show "calculateSimilarity (Some s) (Some t)
          = Some ((of_nat (max (length s) (length t)) - of_nat (levenshtein s t))
                    / of_nat (max (length s) (length t)))"
    if "s \<noteq> [] \<and> t \<noteq> []"
    using that by (simp only: calculateSimilarity_Some) simp
  show "calculateSimilarity (Some s) (Some s) = Some 1" if "s \<noteq> []"
    using that by (simp add: calculateSimilarity_similarity similarity_same)
  show "\<exists>r. calculateSimilarity a b = Some r \<and> 0 \<le> r \<and> r \<le> 1"
    using similarity_bounds[of a b] by (simp add: calculateSimilarity_similarity)
  show "edit_script s t (levenshtein s t)"
    by (rule edit_script_levenshtein)
  show "levenshtein s t \<le> n" if "edit_script s t n" for n
    using that by (rule levenshtein_le_edit_script)
qed

theorem calculateSimilarity_levenshtein_witness:
  "calculateSimilarity (Some (ascii ''solt'')) (Some (ascii ''salty'')) = Some (3 / 5)
   \<and> ascii ''solt'' \<noteq> [] \<and> ascii ''salty'' \<noteq> []
   \<and> levenshtein (ascii ''solt'') (ascii ''salty'') = 2
   \<and> max (length (ascii ''solt'')) (length (ascii ''salty'')) = 5
   \<and> calculateSimilarity (Some (ascii ''solt'')) (Some (ascii ''solt'')) = Some 1"
proof -
  have l: "levenshtein (ascii ''solt'') (ascii ''salty'') = 2"
    by code_simp
  have n: "ascii ''solt'' \<noteq> [] \<and> ascii ''salty'' \<noteq> []
      \<and> length (ascii ''solt'') = 4 \<and> length (ascii ''salty'') = 5"
    by (simp add: ascii_def)
  have a: "calculateSimilarity (Some (ascii ''solt'')) (Some (ascii ''salty''))
      = Some ((of_nat (max (length (ascii ''solt'')) (length (ascii ''salty'')))
                - of_nat (levenshtein (ascii ''solt'') (ascii ''salty'')))
              / of_nat (max (length (ascii ''solt'')) (length (ascii ''salty''))))"
    using calculateSimilarity_levenshtein[of "Some (ascii ''solt'')" "Some (ascii ''salty'')"
        "ascii ''solt''" "ascii ''salty''"] n
    by blast
  have b: "calculateSimilarity (Some (ascii ''solt'')) (Some (ascii ''solt'')) = Some 1"
    using calculateSimilarity_levenshtein[of "Some (ascii ''solt'')" "Some (ascii ''solt'')"
        "ascii ''solt''" "ascii ''solt''"] n
    by blast
  have c: "calculateSimilarity (Some (ascii ''solt'')) (Some (ascii ''salty'')) = Some (3 / 5)"
    unfolding a by (simp add: l n)
  show ?thesis
    using b c l n by simp
qed

lemma verified_token_cases:
  "verified_token lc db ocr = Some ocr \<or>
   (\<exists>d \<in> set db. verified_token lc db ocr = Some d
      \<and> (\<forall>d' \<in> set db. token_similarity lc ocr d' \<le> token_similarity lc ocr d))"
proof (cases "best_similarity lc db ocr > 7 / 10")
  case False
  then show ?thesis by (simp add: verified_token_def)
next
  case True
  then have "best_similarity lc db ocr > 0" by simp
  from best_token_Some[OF this] obtain d where
    d: "d \<in> set db" "best_token lc db ocr = Some d"
       "token_similarity lc ocr d = best_similarity lc db ocr" by auto
  have "\<forall>d' \<in> set db. token_similarity lc ocr d' \<le> token_similarity lc ocr d"
    unfolding d(3) by (simp add: best_similarity_ge)
  with d True show ?thesis by (auto simp add: verified_token_def)
qed

lemma verified_nth:
  "i < length ocrs \<Longrightarrow>
     verified (verifyIngredients lc ocrs raw) ! i = verified_token lc (parseIngredients raw) (ocrs ! i)"
  by (simp add: verifyIngredients_reconcile reconcile_def)

lemma verified_length: "length (verified (verifyIngredients lc ocrs raw)) = length ocrs"
  by (simp add: verifyIngredients_reconcile reconcile_def)

text \<open>
  Claim C3.  The list \<open>verified\<close> has the length of the list of OCR tokens, and its
  element at each position is the OCR token of that position or a DB token that no other
  DB token beats in similarity to that OCR token.
\<close>

theorem verified_same_length_and_positions:
  "length (verified (verifyIngredients toLowerCase ocrTokens raw)) = length ocrTokens
   \<and> (\<forall>i < length ocrTokens.
         verified (verifyIngredients toLowerCase ocrTokens raw) ! i = Some (ocrTokens ! i)
         \<or> (\<exists>d \<in> set (parseIngredients raw).
               verified (verifyIngredients toLowerCase ocrTokens raw) ! i = Some d
               \<and> (\<forall>d' \<in> set (parseIngredients raw).
                     token_similarity toLowerCase (ocrTokens ! i) d'
                       \<le> token_similarity toLowerCase (ocrTokens ! i) d)))"
proof (intro conjI allI impI)
  show "length (verified (verifyIngredients toLowerCase ocrTokens raw)) = length ocrTokens"
    by (rule verified_length)
  fix i assume i: "i < length ocrTokens"
  show "verified (verifyIngredients toLowerCase ocrTokens raw) ! i = Some (ocrTokens ! i)
         \<or> (\<exists>d \<in> set (parseIngredients raw).
               verified (verifyIngredients toLowerCase ocrTokens raw) ! i = Some d
               \<and> (\<forall>d' \<in> set (parseIngredients raw).
                     token_similarity toLowerCase (ocrTokens ! i) d'
                       \<le> token_similarity toLowerCase (ocrTokens ! i) d))"
    unfolding verified_nth[OF i] by (rule verified_token_cases)
qed

theorem verified_same_length_and_positions_witness:
  "length (verified (verifyIngredients toLowerCase_basic [ascii ''solt'', ascii ''egg'']
       (Some (ascii ''salt,tea'')))) = length [ascii ''solt'', ascii ''egg'']
   \<and> verified (verifyIngredients toLowerCase_basic [ascii ''solt'', ascii ''egg'']
       (Some (ascii ''salt,tea''))) = [Some (ascii ''salt''), Some (ascii ''egg'')]
   \<and> ascii ''salt'' \<in> set (parseIngredients (Some (ascii ''salt,tea'')))"
proof -
  have v: "verified (verifyIngredients toLowerCase_basic [ascii ''solt'', ascii ''egg'']
       (Some (ascii ''salt,tea''))) = [Some (ascii ''salt''), Some (ascii ''egg'')]"
    by code_simp
  have p: "parseIngredients (Some (ascii ''salt,tea'')) = [ascii ''salt'', ascii ''tea'']"
    by code_simp
  show ?thesis
    using verified_same_length_and_positions[of toLowerCase_basic
        "[ascii ''solt'', ascii ''egg'']" "Some (ascii ''salt,tea'')"] v p
    by simp
qed

text \<open>
  Claim C5.  When the raw DB text yields no token, as \<open>null\<close> and the empty text do,
  \<open>verifyIngredients\<close> returns the OCR tokens unchanged and no correction.
\<close>

theorem no_db_tokens_identity:
  "(parseIngredients raw = [] \<longrightarrow>
      verifyIngredients toLowerCase ocrTokens raw
        = \<lparr>verified = map Some ocrTokens, corrections = [], dbIngredients = []\<rparr>)
   \<and> verifyIngredients toLowerCase ocrTokens None
        = \<lparr>verified = map Some ocrTokens, corrections = [], dbIngredients = []\<rparr>
   \<and> verifyIngredients toLowerCase ocrTokens (Some [])
        = \<lparr>verified = map Some ocrTokens, corrections = [], dbIngredients = []\<rparr>"
proof -
  have "verifyIngredients toLowerCase ocrTokens r
        = \<lparr>verified = map Some ocrTokens, corrections = [], dbIngredients = []\<rparr>"
    if "parseIngredients r = []" for r
  proof -
    have "verified_token toLowerCase [] = Some"
      by (rule ext) (simp add: verified_token_def no_db_best)
    moreover have "token_corrections toLowerCase [] = (\<lambda>ocr. [])"
      by (rule ext) (simp add: token_corrections_def no_db_best)
    ultimately show ?thesis
      by (simp add: verifyIngredients_reconcile reconcile_def that)
  qed
  moreover have "parseIngredients None = []" "parseIngredients (Some []) = []"
    by (simp_all add: parseIngredients_def)
  ultimately show ?thesis by blast
qed

theorem no_db_tokens_identity_witness:
  "parseIngredients (Some (ascii '' ,; / '')) = []
   \<and> verifyIngredients toLowerCase_basic [ascii ''solt'', ascii ''egg''] (Some (ascii '' ,; / ''))
        = \<lparr>verified = [Some (ascii ''solt''), Some (ascii ''egg'')], corrections = [],
           dbIngredients = []\<rparr>"
proof -
  have p: "parseIngredients (Some (ascii '' ,; / '')) = []"
    by code_simp
  show ?thesis
    using no_db_tokens_identity[of "Some (ascii '' ,; / '')" toLowerCase_basic
        "[ascii ''solt'', ascii ''egg'']"] p
    by simp
qed

lemma corrections_mem:
  "c \<in> set (corrections (verifyIngredients lc ocrs raw)) \<Longrightarrow>
     \<exists>ocr \<in> set ocrs. token_corrections lc (parseIngredients raw) ocr = [c]"
proof -
  assume "c \<in> set (corrections (verifyIngredients lc ocrs raw))"
  then obtain ocr where o: "ocr \<in> set ocrs" "c \<in> set (token_corrections lc (parseIngredients raw) ocr)"
    by (auto simp add: verifyIngredients_reconcile reconcile_def)
  then have "token_corrections lc (parseIngredients raw) ocr = [c]"
    by (auto simp add: token_corrections_def split: if_splits)
  with o show ?thesis by blast
qed

text \<open>
  Claim C9.  Every correction \<open>verifyIngredients\<close> emits carries a confidence that is an
  integer from 70 to 100: it is the rounding of a hundred times a similarity that is
  above \<open>0.70\<close> and at most 1.
\<close>

theorem correction_confidence_range:
  "\<forall>c \<in> set (corrections (verifyIngredients toLowerCase ocrTokens raw)).
     70 \<le> confidence c \<and> confidence c \<le> 100"
proof
  fix c assume "c \<in> set (corrections (verifyIngredients toLowerCase ocrTokens raw))"
  from corrections_mem[OF this] obtain ocr where
    c: "token_corrections toLowerCase (parseIngredients raw) ocr = [c]" by auto
  let ?s = "best_similarity toLowerCase (parseIngredients raw) ocr"
  from c have gt: "7 / 10 < ?s" and conf: "confidence c = round (?s * 100)"
    by (auto simp add: token_corrections_def split: if_splits)
  show "70 \<le> confidence c \<and> confidence c \<le> 100"
    unfolding conf using gt best_similarity_le_1 by (rule round_percent_bounds)
qed

theorem correction_confidence_range_witness:
  "\<lparr>original = ascii ''solt'', corrected = Some (ascii ''salt''), confidence = 75\<rparr>
     \<in> set (corrections (verifyIngredients toLowerCase_basic [ascii ''solt'', ascii ''egg'']
              (Some (ascii ''salt,tea''))))
   \<and> 70 \<le> confidence \<lparr>original = ascii ''solt'', corrected = Some (ascii ''salt''), confidence = 75\<rparr>
   \<and> confidence \<lparr>original = ascii ''solt'', corrected = Some (ascii ''salt''), confidence = 75\<rparr> \<le> 100"
proof -
  have m: "corrections (verifyIngredients toLowerCase_basic [ascii ''solt'', ascii ''egg'']
              (Some (ascii ''salt,tea'')))
      = [\<lparr>original = ascii ''solt'', corrected = Some (ascii ''salt''), confidence = 75\<rparr>]"
    by code_simp
  show ?thesis
    using correction_confidence_range[of toLowerCase_basic "[ascii ''solt'', ascii ''egg'']"
        "Some (ascii ''salt,tea'')"] m
    by simp
qed

text \<open>
  Claim C10.  An empty OCR token passes through: the loop body appends it to \<open>verified\<close>
  and leaves \<open>corrections\<close> as it was, whatever the DB tokens are; so \<open>verified\<close> holds
  the empty string at the position of every empty OCR token, and no correction has the
  empty string as its original.  (Lower-casing the empty string gives the empty string.)
\<close>

theorem empty_token_passes_through:
  assumes "toLowerCase [] = []"
  shows "verify_body toLowerCase dbTokens [] (verified', corrections')
           = (verified' @ [Some []], corrections')
   \<and> (\<forall>i < length ocrTokens. ocrTokens ! i = [] \<longrightarrow>
         verified (verifyIngredients toLowerCase ocrTokens raw) ! i = Some [])
   \<and> (\<forall>c \<in> set (corrections (verifyIngredients toLowerCase ocrTokens raw)). original c \<noteq> [])"
proof (intro conjI allI impI ballI)
  have b: "best_similarity toLowerCase db [] = 0" for db
    using empty_token_best[of toLowerCase db] assms by simp
  have v: "verified_token toLowerCase db [] = Some []" for db
    by (simp add: verified_token_def b)
  have t: "token_corrections toLowerCase db [] = []" for db
    by (simp add: token_corrections_def b)
  show "verify_body toLowerCase dbTokens [] (verified', corrections')
           = (verified' @ [Some []], corrections')"
    by (simp add: verify_body_eq v t)
  show "verified (verifyIngredients toLowerCase ocrTokens raw) ! i = Some []"
    if "i < length ocrTokens" "ocrTokens ! i = []" for i
    using that by (simp add: verified_nth v)
  show "original c \<noteq> []"
    if "c \<in> set (corrections (verifyIngredients toLowerCase ocrTokens raw))" for c
  proof
    assume e: "original c = []"
    from corrections_mem[OF that] obtain ocr where
      c: "token_corrections toLowerCase (parseIngredients raw) ocr = [c]" by auto
    then have "original c = ocr"
      by (auto simp add: token_corrections_def split: if_splits)
    with e c t show False by simp
  qed
qed

theorem empty_token_passes_through_witness:
  "toLowerCase_basic [] = []
   \<and> verifyIngredients toLowerCase_basic [ascii ''solt'', []] (Some (ascii ''salt,tea''))
       = \<lparr>verified = [Some (ascii ''salt''), Some []],
          corrections = [\<lparr>original = ascii ''solt'', corrected = Some (ascii ''salt''),
                           confidence = 75\<rparr>],
          dbIngredients = [ascii ''salt'', ascii ''tea'']\<rparr>
   \<and> verified (verifyIngredients toLowerCase_basic [ascii ''solt'', []]
        (Some (ascii ''salt,tea''))) ! 1 = Some []"
proof -
  have l: "toLowerCase_basic [] = []"
    by (simp add: toLowerCase_basic_def)
  have r: "verifyIngredients toLowerCase_basic [ascii ''solt'', []] (Some (ascii ''salt,tea''))
       = \<lparr>verified = [Some (ascii ''salt''), Some []],
          corrections = [\<lparr>original = ascii ''solt'', corrected = Some (ascii ''salt''),
                           confidence = 75\<rparr>],
          dbIngredients = [ascii ''salt'', ascii ''tea'']\<rparr>"
    by code_simp
  show ?thesis
    using empty_token_passes_through[of toLowerCase_basic "[ascii ''salt'', ascii ''tea'']"
        "[]" "[]" "[ascii ''solt'', []]" "Some (ascii ''salt,tea'')"] l r
    by simp
qed

lemma searchFoodInDB_Rejected:
  "axios_get name = Rejected \<Longrightarrow> searchFoodInDB toNumber axios_get name = Some JNull"
  by (simp add: searchFoodInDB_def)

lemma searchFoodInDB_no_items:
  "axios_get name = Fulfilled data \<Longrightarrow>
   \<not> truthy (js_member (js_member data (ascii ''body'')) (ascii ''items'')) \<Longrightarrow>
   searchFoodInDB toNumber axios_get name = Some JNull"
  by (simp add: searchFoodInDB_def)

lemma searchFoodInDB_empty_items:
  "axios_get name = Fulfilled data \<Longrightarrow>
   js_member (js_member data (ascii ''body'')) (ascii ''items'') = Some (JArr []) \<Longrightarrow>
   searchFoodInDB toNumber axios_get name = Some JNull"
  by (simp add: searchFoodInDB_def)

lemma verify_food_label_not_found:
  "\<not> truthy (searchFoodInDB toNumber axios_get (productName args)) \<Longrightarrow>
   verify_food_label toLowerCase toNumber axios_get args =
     NotFound \<lparr>not_found_verified = False, not_found_message_field = not_found_message,
               originalData = args, suggestion = suggestion_text\<rparr>"
  by (simp add: verify_food_label_def)

text \<open>
  Claim C6.  When the lookup yields no candidate (the request fails, whatever the reason;
  the answer has no \<open>body.items\<close>; its list of items is empty; or \<open>searchFoodInDB\<close>
  returns a falsy value for any other reason), \<open>searchFoodInDB\<close> returns a falsy value
  instead of raising, and the handler returns the payload of a product that was not
  found: \<open>verified\<close> is false and \<open>originalData\<close> is the product name, the manufacturer
  and the ingredients as they came.
\<close>

theorem lookup_without_candidate_not_found:
  "(axios_get (productName args) = Rejected
    \<or> (\<exists>data. axios_get (productName args) = Fulfilled data
          \<and> (\<not> truthy (js_member (js_member data (ascii ''body'')) (ascii ''items''))
              \<or> js_member (js_member data (ascii ''body'')) (ascii ''items'') = Some (JArr [])))
    \<or> \<not> truthy (searchFoodInDB toNumber axios_get (productName args)))
   \<longrightarrow> \<not> truthy (searchFoodInDB toNumber axios_get (productName args))
       \<and> verify_food_label toLowerCase toNumber axios_get args =
           NotFound \<lparr>not_found_verified = False, not_found_message_field = not_found_message,
                     originalData = args, suggestion = suggestion_text\<rparr>"
proof
  assume "axios_get (productName args) = Rejected
    \<or> (\<exists>data. axios_get (productName args) = Fulfilled data
          \<and> (\<not> truthy (js_member (js_member data (ascii ''body'')) (ascii ''items''))
              \<or> js_member (js_member data (ascii ''body'')) (ascii ''items'') = Some (JArr [])))
    \<or> \<not> truthy (searchFoodInDB toNumber axios_get (productName args))"
  then have "\<not> truthy (searchFoodInDB toNumber axios_get (productName args))"
    by (auto simp add: searchFoodInDB_Rejected searchFoodInDB_no_items
        searchFoodInDB_empty_items)
  then show "\<not> truthy (searchFoodInDB toNumber axios_get (productName args))
       \<and> verify_food_label toLowerCase toNumber axios_get args =
           NotFound \<lparr>not_found_verified = False, not_found_message_field = not_found_message,
                     originalData = args, suggestion = suggestion_text\<rparr>"
    by (simp add: verify_food_label_not_found)
qed

theorem lookup_without_candidate_not_found_witness:
  "verify_food_label toLowerCase_basic (\<lambda>v. None) (\<lambda>name. Rejected)
       \<lparr>productName = ascii ''tea'', manufacturer = None, ingredients = [ascii ''egg'']\<rparr>
     = NotFound \<lparr>not_found_verified = False, not_found_message_field = not_found_message,
         originalData =
           \<lparr>productName = ascii ''tea'', manufacturer = None, ingredients = [ascii ''egg'']\<rparr>,
         suggestion = suggestion_text\<rparr>
   \<and> verify_food_label toLowerCase_basic (\<lambda>v. None)
       (\<lambda>name. Fulfilled (Some (JObj [(ascii ''body'', JObj [(ascii ''items'', JArr [])])])))
       \<lparr>productName = ascii ''tea'', manufacturer = Some (ascii ''co''),
        ingredients = [ascii ''egg'']\<rparr>
     = NotFound \<lparr>not_found_verified = False, not_found_message_field = not_found_message,
         originalData =
           \<lparr>productName = ascii ''tea'', manufacturer = Some (ascii ''co''),
            ingredients = [ascii ''egg'']\<rparr>,
         suggestion = suggestion_text\<rparr>
   \<and> verify_food_label toLowerCase_basic (\<lambda>v. None)
       (\<lambda>name. Fulfilled (Some (JObj [(ascii ''header'', JNull)])))
       \<lparr>productName = ascii ''tea'', manufacturer = None, ingredients = []\<rparr>
     = NotFound \<lparr>not_found_verified = False, not_found_message_field = not_found_message,
         originalData = \<lparr>productName = ascii ''tea'', manufacturer = None, ingredients = []\<rparr>,
         suggestion = suggestion_text\<rparr>"
proof -
  have m1: "js_member (js_member (Some (JObj [(ascii ''body'', JObj [(ascii ''items'', JArr [])])]))
      (ascii ''body'')) (ascii ''items'') = Some (JArr [])"
    by simp
  have m2: "\<not> truthy (js_member (js_member (Some (JObj [(ascii ''header'', JNull)]))
      (ascii ''body'')) (ascii ''items''))"
    by (simp add: ascii_def)
  show ?thesis
    using lookup_without_candidate_not_found[of "\<lambda>name. Rejected"
        "\<lparr>productName = ascii ''tea'', manufacturer = None, ingredients = [ascii ''egg'']\<rparr>"
        "\<lambda>v. None" toLowerCase_basic]
      lookup_without_candidate_not_found[of
        "\<lambda>name. Fulfilled (Some (JObj [(ascii ''body'', JObj [(ascii ''items'', JArr [])])]))"
        "\<lparr>productName = ascii ''tea'', manufacturer = Some (ascii ''co''),
          ingredients = [ascii ''egg'']\<rparr>"
        "\<lambda>v. None" toLowerCase_basic]
      lookup_without_candidate_not_found[of
        "\<lambda>name. Fulfilled (Some (JObj [(ascii ''header'', JNull)]))"
        "\<lparr>productName = ascii ''tea'', manufacturer = None, ingredients = []\<rparr>"
        "\<lambda>v. None" toLowerCase_basic]
      m1 m2
    by blast
qed

lemma verify_food_label_string:
  assumes "truthy (searchFoodInDB toNumber axios_get (productName args))"
    and "js_or (js_or (js_member (searchFoodInDB toNumber axios_get (productName args))
                          (ascii ''rawmtrl_nm''))
                      (js_member (searchFoodInDB toNumber axios_get (productName args))
                          (ascii ''RAWMTRL_NM'')))
               (Some (JStr [])) = Some (JStr raw)"
  shows "\<exists>v. verify_food_label toLowerCase toNumber axios_get args = Verification v
           \<and> result_corrections v
               = corrections (verifyIngredients toLowerCase (ingredients args) (Some raw))
           \<and> ingredients_verified (result_ingredients v)
               = verified (verifyIngredients toLowerCase (ingredients args) (Some raw))
           \<and> result_confidence v = (if result_corrections v = [] then 100 else 85)
           \<and> message v = (if result_corrections v = [] then all_correct_message
                        else decimal (length (result_corrections v)) @ corrected_suffix)"
proof -
  define r where "r = verifyIngredients toLowerCase (ingredients args) (Some raw)"
  define p where "p = searchFoodInDB toNumber axios_get (productName args)"
  have t: "truthy p" using assms(1) by (simp only: p_def)
  have s: "js_or (js_or (js_member p (ascii ''rawmtrl_nm'')) (js_member p (ascii ''RAWMTRL_NM'')))
               (Some (JStr [])) = Some (JStr raw)"
    using assms(2) by (simp only: p_def)
  have "verify_food_label toLowerCase toNumber axios_get args =
      Verification
        \<lparr>result_verified = True,
         productInfo =
           \<lparr>info_name =
              js_or (js_or (js_member p (ascii ''prdlst_nm'')) (js_member p (ascii ''PRDLST_NM'')))
                    (Some (JStr (productName args))),
            info_manufacturer =
              js_or (js_or (js_member p (ascii ''bssh_nm'')) (js_member p (ascii ''BSSH_NM'')))
                    (map_option JStr (manufacturer args)),
            info_reportNumber =
              js_or (js_member p (ascii ''prdlst_report_no''))
                    (js_member p (ascii ''PRDLST_REPORT_NO''))\<rparr>,
         result_ingredients =
           \<lparr>ingredients_original = ingredients args, ingredients_verified = verified r,
            fromDB = dbIngredients r, inCorrectOrder = True\<rparr>,
         result_corrections = corrections r,
         result_confidence = (if length (corrections r) = 0 then 100 else 85),
         message =
           (if length (corrections r) = 0 then all_correct_message
            else decimal (length (corrections r)) @ corrected_suffix)\<rparr>"
    unfolding verify_food_label_def p_def[symmetric] Let_def
    by (simp only: t s r_def[symmetric] not_True_eq_False if_False option.case json.case)
  then show ?thesis
    by (simp add: r_def)
qed

lemma verify_food_label_Verification:
  assumes "verify_food_label toLowerCase toNumber axios_get args = Verification v"
  shows "result_confidence v = (if result_corrections v = [] then 100 else 85)
       \<and> message v = (if result_corrections v = [] then all_correct_message
                        else decimal (length (result_corrections v)) @ corrected_suffix)"
proof -
  define p where "p = searchFoodInDB toNumber axios_get (productName args)"
  define x where "x = js_or (js_or (js_member p (ascii ''rawmtrl_nm''))
      (js_member p (ascii ''RAWMTRL_NM''))) (Some (JStr []))"
  have t: "truthy p"
  proof (rule ccontr)
    assume "\<not> truthy p"
    then have "verify_food_label toLowerCase toNumber axios_get args =
        NotFound \<lparr>not_found_verified = False, not_found_message_field = not_found_message,
               originalData = args, suggestion = suggestion_text\<rparr>"
      unfolding p_def by (rule verify_food_label_not_found)
    with assms show False by simp
  qed
  have "\<exists>raw. x = Some (JStr raw)"
  proof (rule ccontr)
    assume n: "\<not> (\<exists>raw. x = Some (JStr raw))"
    have "verify_food_label toLowerCase toNumber axios_get args = UnexpectedFault"
      unfolding verify_food_label_def p_def[symmetric] Let_def x_def[symmetric]
      using t n by (cases x) (simp_all split: json.splits)
    with assms show False by simp
  qed
  then obtain raw where "x = Some (JStr raw)" by blast
  then have "js_or (js_or (js_member (searchFoodInDB toNumber axios_get (productName args))
                          (ascii ''rawmtrl_nm''))
                      (js_member (searchFoodInDB toNumber axios_get (productName args))
                          (ascii ''RAWMTRL_NM'')))
               (Some (JStr [])) = Some (JStr raw)"
    by (simp only: x_def p_def)
  from verify_food_label_string[OF t[unfolded p_def] this, of toLowerCase] assms
  show ?thesis by auto
qed

text \<open>
  Claim C7.  A verification result carries the confidence 100 when its list of
  corrections is empty and 85 otherwise, whatever the number of corrections and their
  own confidences; its message is the fixed text when there is no correction, and
  otherwise the number of corrections in decimal followed by the fixed suffix.  The
  decimal string of a number is its numeral: it consists of digits only, denotes the
  number, is not empty, and starts with the digit zero only for zero itself; it is the
  only such string.  A record
  that was found, with a raw ingredient text that is a string (or absent), always gives
  a verification result, with the corrections of \<open>verifyIngredients\<close>.
\<close>

theorem verification_confidence_and_message:
  "(verify_food_label toLowerCase toNumber axios_get args = Verification v \<longrightarrow>
      result_confidence v = (if result_corrections v = [] then 100 else 85)
      \<and> message v = (if result_corrections v = [] then all_correct_message
                       else decimal (length (result_corrections v)) @ corrected_suffix))
   \<and> (truthy (searchFoodInDB toNumber axios_get (productName args))
        \<and> js_or (js_or (js_member (searchFoodInDB toNumber axios_get (productName args))
                            (ascii ''rawmtrl_nm''))
                        (js_member (searchFoodInDB toNumber axios_get (productName args))
                            (ascii ''RAWMTRL_NM'')))
                 (Some (JStr [])) = Some (JStr raw) \<longrightarrow>
       (\<exists>w. verify_food_label toLowerCase toNumber axios_get args = Verification w
            \<and> result_corrections w
                = corrections (verifyIngredients toLowerCase (ingredients args) (Some raw))))
   \<and> decimal_value (decimal n) = n
   \<and> (\<forall>c \<in> set (decimal n). is_digit c)
   \<and> decimal n \<noteq> []
   \<and> (n \<noteq> 0 \<longrightarrow> hd (decimal n) \<noteq> 0x30)
   \<and> decimal 0 = [0x30]
   \<and> is_digit u = (0x30 \<le> u \<and> u \<le> 0x39)
   \<and> decimal_value (s @ [u]) = 10 * decimal_value s + (unat u - 48)
   \<and> decimal_value [] = 0
   \<and> (s \<noteq> [] \<and> (\<forall>c \<in> set s. is_digit c) \<and> (hd s = 0x30 \<longrightarrow> s = [0x30]) \<longrightarrow>
        decimal (decimal_value s) = s)"
proof (intro conjI)
  show "verify_food_label toLowerCase toNumber axios_get args = Verification v \<longrightarrow>
      result_confidence v = (if result_corrections v = [] then 100 else 85)
      \<and> message v = (if result_corrections v = [] then all_correct_message
                       else decimal (length (result_corrections v)) @ corrected_suffix)"
    by (rule impI) (rule verify_food_label_Verification)
  show "truthy (searchFoodInDB toNumber axios_get (productName args))
        \<and> js_or (js_or (js_member (searchFoodInDB toNumber axios_get (productName args))
                            (ascii ''rawmtrl_nm''))
                        (js_member (searchFoodInDB toNumber axios_get (productName args))
                            (ascii ''RAWMTRL_NM'')))
                 (Some (JStr [])) = Some (JStr raw) \<longrightarrow>
       (\<exists>w. verify_food_label toLowerCase toNumber axios_get args = Verification w
            \<and> result_corrections w
                = corrections (verifyIngredients toLowerCase (ingredients args) (Some raw)))"
  proof (rule impI)
    assume a: "truthy (searchFoodInDB toNumber axios_get (productName args))
        \<and> js_or (js_or (js_member (searchFoodInDB toNumber axios_get (productName args))
                            (ascii ''rawmtrl_nm''))
                        (js_member (searchFoodInDB toNumber axios_get (productName args))
                            (ascii ''RAWMTRL_NM'')))
                 (Some (JStr [])) = Some (JStr raw)"
    from verify_food_label_string[OF conjunct1[OF a] conjunct2[OF a], of toLowerCase]
    show "\<exists>w. verify_food_label toLowerCase toNumber axios_get args = Verification w
            \<and> result_corrections w
                = corrections (verifyIngredients toLowerCase (ingredients args) (Some raw))"
      by blast
  qed
  show "decimal_value (decimal n) = n" by (rule decimal_value_decimal)
  show "\<forall>c \<in> set (decimal n). is_digit c" by (blast dest: decimal_digits)
  show "decimal n \<noteq> []" by (rule decimal_not_Nil)
  show "n \<noteq> 0 \<longrightarrow> hd (decimal n) \<noteq> 0x30" by (rule impI) (rule decimal_no_leading_zero)
  show "decimal 0 = [0x30]" by (rule decimal_zero)
  show "is_digit u = (0x30 \<le> u \<and> u \<le> 0x39)" by (rule is_digit_def)
  show "decimal_value (s @ [u]) = 10 * decimal_value s + (unat u - 48)"
    by (rule decimal_value_snoc)
  show "decimal_value [] = 0" by (simp add: decimal_value_def)
  show "s \<noteq> [] \<and> (\<forall>c \<in> set s. is_digit c) \<and> (hd s = 0x30 \<longrightarrow> s = [0x30]) \<longrightarrow>
        decimal (decimal_value s) = s"
  proof (rule impI)
    assume a: "s \<noteq> [] \<and> (\<forall>c \<in> set s. is_digit c) \<and> (hd s = 0x30 \<longrightarrow> s = [0x30])"
    show "decimal (decimal_value s) = s"
      using conjunct1[OF a] conjunct1[OF conjunct2[OF a]] conjunct2[OF conjunct2[OF a]]
      by (rule decimal_unique)
  qed
qed

theorem verification_confidence_and_message_witness:
  "verify_food_label toLowerCase_basic (\<lambda>v. None) example_store
       \<lparr>productName = ascii ''tea'', manufacturer = None,
        ingredients = [ascii ''solt'', ascii ''Tea'']\<rparr>
     = Verification
        \<lparr>result_verified = True,
         productInfo = \<lparr>info_name = Some (JStr (ascii ''tea'')), info_manufacturer = None,
                         info_reportNumber = None\<rparr>,
         result_ingredients =
           \<lparr>ingredients_original = [ascii ''solt'', ascii ''Tea''],
            ingredients_verified = [Some (ascii ''salt''), Some (ascii ''tea'')],
            fromDB = [ascii ''salt'', ascii ''tea''], inCorrectOrder = True\<rparr>,
         result_corrections =
           [\<lparr>original = ascii ''solt'', corrected = Some (ascii ''salt''), confidence = 75\<rparr>,
            \<lparr>original = ascii ''Tea'', corrected = Some (ascii ''tea''), confidence = 100\<rparr>],
         result_confidence = 85,
         message = ascii ''2'' @ corrected_suffix\<rparr>
   \<and> searchFoodInDB (\<lambda>v. None) example_store (ascii ''tea'')
       = Some (JObj [(ascii ''RAWMTRL_NM'', JStr (ascii ''salt,tea''))])
   \<and> decimal 305 = ascii ''305''
   \<and> decimal_value (ascii ''305'') = 305
   \<and> hd (decimal 305) \<noteq> 0x30
   \<and> (305 :: nat) \<noteq> 0"
proof -
  have e: "verify_food_label toLowerCase_basic (\<lambda>v. None) example_store
       \<lparr>productName = ascii ''tea'', manufacturer = None,
        ingredients = [ascii ''solt'', ascii ''Tea'']\<rparr>
     = Verification
        \<lparr>result_verified = True,
         productInfo = \<lparr>info_name = Some (JStr (ascii ''tea'')), info_manufacturer = None,
                         info_reportNumber = None\<rparr>,
         result_ingredients =
           \<lparr>ingredients_original = [ascii ''solt'', ascii ''Tea''],
            ingredients_verified = [Some (ascii ''salt''), Some (ascii ''tea'')],
            fromDB = [ascii ''salt'', ascii ''tea''], inCorrectOrder = True\<rparr>,
         result_corrections =
           [\<lparr>original = ascii ''solt'', corrected = Some (ascii ''salt''), confidence = 75\<rparr>,
            \<lparr>original = ascii ''Tea'', corrected = Some (ascii ''tea''), confidence = 100\<rparr>],
         result_confidence = 85,
         message = ascii ''2'' @ corrected_suffix\<rparr>"
    by code_simp
  have s: "searchFoodInDB (\<lambda>v. None) example_store (ascii ''tea'')
       = Some (JObj [(ascii ''RAWMTRL_NM'', JStr (ascii ''salt,tea''))])"
    by code_simp
  have d: "decimal 305 = ascii ''305''"
    by code_simp
  note th = verification_confidence_and_message[of toLowerCase_basic "\<lambda>v. None" example_store
        "\<lparr>productName = ascii ''tea'', manufacturer = None,
          ingredients = [ascii ''solt'', ascii ''Tea'']\<rparr>" _ _ 305]
  have v: "decimal_value (decimal 305) = 305"
    by (rule th[THEN conjunct2, THEN conjunct2, THEN conjunct1])
  have h: "(305 :: nat) \<noteq> 0 \<longrightarrow> hd (decimal 305) \<noteq> 0x30"
    by (rule th[THEN conjunct2, THEN conjunct2, THEN conjunct2, THEN conjunct2,
          THEN conjunct2, THEN conjunct1])
  have n: "(305 :: nat) \<noteq> 0" by simp
  from h n have z: "hd (decimal 305) \<noteq> 0x30" by blast
  show ?thesis
    using e s d v[unfolded d] z n by simp
qed

lemma scenario_B_similarity:
  "calculateSimilarity (Some token_milgaryu) (Some token_milgaru) = Some (2 / 3)"
  by code_simp

lemma scenario_B_tokens: "parseIngredients (Some token_milgaru) = [token_milgaru]"
  by code_simp

lemma scenario_B_reconcile:
  assumes "toLowerCase token_milgaryu = token_milgaryu" "toLowerCase token_milgaru = token_milgaru"
  shows "verifyIngredients toLowerCase [token_milgaryu] (Some token_milgaru)
     = \<lparr>verified = [Some token_milgaryu], corrections = [], dbIngredients = [token_milgaru]\<rparr>"
proof -
  have "Some (token_similarity toLowerCase token_milgaryu token_milgaru) = Some (2 / 3)"
    unfolding token_similarity_def calculateSimilarity_similarity[symmetric] assms
    by (rule scenario_B_similarity)
  then have "best_similarity toLowerCase [token_milgaru] token_milgaryu = 2 / 3"
    by (simp add: best_similarity_def)
  then show ?thesis
    by (simp add: verifyIngredients_reconcile scenario_B_tokens reconcile_def
        verified_token_def token_corrections_def)
qed

text \<open>
  Claim C2, as amended.  For the OCR token \<open>token_milgaryu\<close> and the raw DB text
  \<open>token_milgaru\<close> (words without case, which lower-casing leaves as they are) the
  similarity is two thirds, which does not exceed \<open>0.70\<close>; so \<open>verifyIngredients\<close>
  returns the OCR token unchanged in \<open>verified\<close> and no correction, and the result of
  the handler for a record with that raw text has the confidence 100.
\<close>

theorem scenario_B_no_correction:
  assumes "toLowerCase token_milgaryu = token_milgaryu"
    and "toLowerCase token_milgaru = token_milgaru"
  shows "calculateSimilarity (Some (toLowerCase token_milgaryu)) (Some (toLowerCase token_milgaru))
       = Some (2 / 3)
   \<and> \<not> (2 / 3 > (7 / 10 :: rat))
   \<and> verifyIngredients toLowerCase [token_milgaryu] (Some token_milgaru)
       = \<lparr>verified = [Some token_milgaryu], corrections = [], dbIngredients = [token_milgaru]\<rparr>
   \<and> (truthy (searchFoodInDB toNumber axios_get (productName args))
        \<and> js_or (js_or (js_member (searchFoodInDB toNumber axios_get (productName args))
                            (ascii ''rawmtrl_nm''))
                        (js_member (searchFoodInDB toNumber axios_get (productName args))
                            (ascii ''RAWMTRL_NM'')))
                 (Some (JStr [])) = Some (JStr token_milgaru)
        \<and> ingredients args = [token_milgaryu] \<longrightarrow>
       (\<exists>v. verify_food_label toLowerCase toNumber axios_get args = Verification v
            \<and> ingredients_verified (result_ingredients v) = [Some token_milgaryu]
            \<and> result_corrections v = []
            \<and> result_confidence v = 100))"
proof (intro conjI)
  show "calculateSimilarity (Some (toLowerCase token_milgaryu)) (Some (toLowerCase token_milgaru))
       = Some (2 / 3)"
    unfolding assms by (rule scenario_B_similarity)
  show "\<not> (2 / 3 > (7 / 10 :: rat))" by simp
  show "verifyIngredients toLowerCase [token_milgaryu] (Some token_milgaru)
       = \<lparr>verified = [Some token_milgaryu], corrections = [], dbIngredients = [token_milgaru]\<rparr>"
    using assms by (rule scenario_B_reconcile)
  show "truthy (searchFoodInDB toNumber axios_get (productName args))
        \<and> js_or (js_or (js_member (searchFoodInDB toNumber axios_get (productName args))
                            (ascii ''rawmtrl_nm''))
                        (js_member (searchFoodInDB toNumber axios_get (productName args))
                            (ascii ''RAWMTRL_NM'')))
                 (Some (JStr [])) = Some (JStr token_milgaru)
        \<and> ingredients args = [token_milgaryu] \<longrightarrow>
       (\<exists>v. verify_food_label toLowerCase toNumber axios_get args = Verification v
            \<and> ingredients_verified (result_ingredients v) = [Some token_milgaryu]
            \<and> result_corrections v = []
            \<and> result_confidence v = 100)"
  proof (rule impI)
    assume a: "truthy (searchFoodInDB toNumber axios_get (productName args))
        \<and> js_or (js_or (js_member (searchFoodInDB toNumber axios_get (productName args))
                            (ascii ''rawmtrl_nm''))
                        (js_member (searchFoodInDB toNumber axios_get (productName args))
                            (ascii ''RAWMTRL_NM'')))
                 (Some (JStr [])) = Some (JStr token_milgaru)
        \<and> ingredients args = [token_milgaryu]"
    then have i: "ingredients args = [token_milgaryu]" by simp
    from a verify_food_label_string[of toNumber axios_get args token_milgaru toLowerCase]
    obtain v where v: "verify_food_label toLowerCase toNumber axios_get args = Verification v"
      "result_corrections v
         = corrections (verifyIngredients toLowerCase (ingredients args) (Some token_milgaru))"
      "ingredients_verified (result_ingredients v)
         = verified (verifyIngredients toLowerCase (ingredients args) (Some token_milgaru))"
      "result_confidence v = (if result_corrections v = [] then 100 else 85)"
      by blast
    show "\<exists>v. verify_food_label toLowerCase toNumber axios_get args = Verification v
            \<and> ingredients_verified (result_ingredients v) = [Some token_milgaryu]
            \<and> result_corrections v = []
            \<and> result_confidence v = 100"
      using v unfolding i scenario_B_reconcile[OF assms] by simp
  qed
qed

theorem scenario_B_no_correction_witness:
  "toLowerCase_basic token_milgaryu = token_milgaryu
   \<and> toLowerCase_basic token_milgaru = token_milgaru
   \<and> searchFoodInDB (\<lambda>v. None) scenario_B_store token_milgaru
       = Some (JObj [(ascii ''rawmtrl_nm'', JStr token_milgaru)])
   \<and> verifyIngredients toLowerCase_basic [token_milgaryu] (Some token_milgaru)
       = \<lparr>verified = [Some token_milgaryu], corrections = [], dbIngredients = [token_milgaru]\<rparr>
   \<and> verify_food_label toLowerCase_basic (\<lambda>v. None) scenario_B_store
        \<lparr>productName = token_milgaru, manufacturer = None, ingredients = [token_milgaryu]\<rparr>
       = Verification
          \<lparr>result_verified = True,
           productInfo = \<lparr>info_name = Some (JStr token_milgaru), info_manufacturer = None,
                           info_reportNumber = None\<rparr>,
           result_ingredients =
             \<lparr>ingredients_original = [token_milgaryu],
              ingredients_verified = [Some token_milgaryu],
              fromDB = [token_milgaru], inCorrectOrder = True\<rparr>,
           result_corrections = [],
           result_confidence = 100,
           message = all_correct_message\<rparr>"
proof -
  have l1: "toLowerCase_basic token_milgaryu = token_milgaryu"
    by code_simp
  have l2: "toLowerCase_basic token_milgaru = token_milgaru"
    by code_simp
  have s: "searchFoodInDB (\<lambda>v. None) scenario_B_store token_milgaru
       = Some (JObj [(ascii ''rawmtrl_nm'', JStr token_milgaru)])"
    by code_simp
  have e: "verify_food_label toLowerCase_basic (\<lambda>v. None) scenario_B_store
        \<lparr>productName = token_milgaru, manufacturer = None, ingredients = [token_milgaryu]\<rparr>
       = Verification
          \<lparr>result_verified = True,
           productInfo = \<lparr>info_name = Some (JStr token_milgaru), info_manufacturer = None,
                           info_reportNumber = None\<rparr>,
           result_ingredients =
             \<lparr>ingredients_original = [token_milgaryu],
              ingredients_verified = [Some token_milgaryu],
              fromDB = [token_milgaru], inCorrectOrder = True\<rparr>,
           result_corrections = [],
           result_confidence = 100,
           message = all_correct_message\<rparr>"
    by code_simp
  show ?thesis
    using scenario_B_no_correction[of toLowerCase_basic, OF l1 l2] l1 l2 s e
    by simp
qed

text \<open>
  The claim as stated fails on this input: the list \<open>verified\<close> is not the DB token, and
  there is no correction, the similarity being two thirds.
\<close>

theorem scenario_B_counterexample:
  "calculateSimilarity (Some (toLowerCase_basic token_milgaryu))
       (Some (toLowerCase_basic token_milgaru)) = Some (2 / 3)
   \<and> \<not> (7 / 10 < (2 / 3 :: rat))
   \<and> verified (verifyIngredients toLowerCase_basic [token_milgaryu] (Some token_milgaru))
       \<noteq> [Some token_milgaru]
   \<and> corrections (verifyIngredients toLowerCase_basic [token_milgaryu] (Some token_milgaru))
       = []"
  by code_simp


lemma parseIngredients_Some:
  "parseIngredients (Some s) = filter (\<lambda>t. t \<noteq> []) (map trim (split s))"
  by (cases "s = []") (simp_all add: parseIngredients_def split_Nil trim_def)

lemma parseIngredients_nonempty: "t \<in> set (parseIngredients x) \<Longrightarrow> t \<noteq> []"
  by (cases x) (auto simp add: parseIngredients_def split: if_splits)

text \<open>
  Claim C8.  \<open>parseIngredients\<close> returns no token for an absent and for an empty text.
  Otherwise it cuts the text at every comma, semicolon and slash (the first piece is the
  longest prefix without such a character, the others are the pieces of what follows the
  separator; no piece holds a separator, and there is one piece more than separators),
  trims each piece (what is removed at either end is white space only, and a trimmed
  piece that is not empty neither starts nor ends with white space), drops the pieces
  that are empty after trimming, and keeps the others in their order.  No token it
  returns is empty.
\<close>

theorem parseIngredients_tokenizes:
  "parseIngredients None = [] \<and> parseIngredients (Some []) = []
   \<and> parseIngredients (Some s) = filter (\<lambda>t. t \<noteq> []) (map trim (split s))
   \<and> (\<forall>t \<in> set (parseIngredients x). t \<noteq> [])
   \<and> is_delim c = (c = 0x2C \<or> c = 0x3B \<or> c = 0x2F)
   \<and> split s =
       (case dropWhile (\<lambda>c. \<not> is_delim c) s of
          [] \<Rightarrow> [takeWhile (\<lambda>c. \<not> is_delim c) s]
        | d # rest \<Rightarrow> takeWhile (\<lambda>c. \<not> is_delim c) s # split rest)
   \<and> (\<forall>q \<in> set (split s). \<forall>u \<in> set q. \<not> is_delim u)
   \<and> length (split s) = Suc (length (filter is_delim s))
   \<and> (\<exists>l r. p = l @ trim p @ r \<and> (\<forall>u \<in> set l. is_space u) \<and> (\<forall>u \<in> set r. is_space u))
   \<and> (trim p \<noteq> [] \<longrightarrow> \<not> is_space (hd (trim p)) \<and> \<not> is_space (last (trim p)))"
proof (intro conjI)
  show "parseIngredients None = []" by (simp add: parseIngredients_def)
  show "parseIngredients (Some []) = []" by (simp add: parseIngredients_def)
  show "parseIngredients (Some s) = filter (\<lambda>t. t \<noteq> []) (map trim (split s))"
    by (rule parseIngredients_Some)
  show "\<forall>t \<in> set (parseIngredients x). t \<noteq> []"
    by (blast dest: parseIngredients_nonempty)
  show "is_delim c = (c = 0x2C \<or> c = 0x3B \<or> c = 0x2F)" by (rule is_delim_def)
  show "split s =
       (case dropWhile (\<lambda>c. \<not> is_delim c) s of
          [] \<Rightarrow> [takeWhile (\<lambda>c. \<not> is_delim c) s]
        | d # rest \<Rightarrow> takeWhile (\<lambda>c. \<not> is_delim c) s # split rest)"
    by (rule split_unfold)
  show "\<forall>q \<in> set (split s). \<forall>u \<in> set q. \<not> is_delim u"
    by (blast dest: split_pieces_clean)
  show "length (split s) = Suc (length (filter is_delim s))" by (rule split_length)
  show "\<exists>l r. p = l @ trim p @ r \<and> (\<forall>u \<in> set l. is_space u) \<and> (\<forall>u \<in> set r. is_space u)"
    by (rule trim_decomposition)
  show "trim p \<noteq> [] \<longrightarrow> \<not> is_space (hd (trim p)) \<and> \<not> is_space (last (trim p))"
    by (rule impI) (rule trim_ends)
qed

theorem parseIngredients_tokenizes_witness:
  "parseIngredients (Some (ascii ''a, b;;c/'')) = [ascii ''a'', ascii ''b'', ascii ''c'']
   \<and> split (ascii ''a, b;;c/'') = [ascii ''a'', ascii '' b'', [], ascii ''c'', []]
   \<and> trim (ascii '' b'') = ascii ''b''
   \<and> trim (ascii '' b'') \<noteq> []
   \<and> ascii ''b'' \<in> set (parseIngredients (Some (ascii ''a, b;;c/'')))"
proof -
  have s: "split (ascii ''a, b;;c/'') = [ascii ''a'', ascii '' b'', [], ascii ''c'', []]"
    by code_simp
  have t: "trim (ascii '' b'') = ascii ''b''"
    by code_simp
  have n: "ascii ''b'' \<noteq> []"
    by (simp add: ascii_def)
  have f: "filter (\<lambda>t. t \<noteq> []) (map trim [ascii ''a'', ascii '' b'', [], ascii ''c'', []])
      = [ascii ''a'', ascii ''b'', ascii ''c'']"
    by code_simp
  have "parseIngredients (Some (ascii ''a, b;;c/''))
      = filter (\<lambda>t. t \<noteq> []) (map trim (split (ascii ''a, b;;c/'')))"
    by (rule parseIngredients_tokenizes[of "ascii ''a, b;;c/''" "Some (ascii ''a, b;;c/'')"
        "0x2C" "ascii '' b''", THEN conjunct2, THEN conjunct2, THEN conjunct1])
  then have "parseIngredients (Some (ascii ''a, b;;c/'')) = [ascii ''a'', ascii ''b'', ascii ''c'']"
    by (simp only: s f)
  then show ?thesis using s t n by simp
qed

end
